theory Spec2Isabelle
  imports Main "HOL-Library.Monad_Syntax"
begin

section \<open>Bytes, sizes and C strings\<close>

text \<open>
  The development embeds the second \<^verbatim>\<open>linenoise.c\<close> of the repository (the one with
  \<^verbatim>\<open>lnHandleCharacterDumb\<close>, \<^verbatim>\<open>lnRestartState\<close> and the weak host callbacks). A C \<^verbatim>\<open>char\<close> is a
  \<^typ>\<open>char\<close>, a C string is the \<^typ>\<open>string\<close> of its bytes before the terminator, and a
  character array is the list of all its bytes.
\<close>

abbreviation NUL :: char where "NUL \<equiv> CHR 0x00"
abbreviation BEL :: char where "BEL \<equiv> CHR 0x07"
abbreviation TAB :: char where "TAB \<equiv> CHR 0x09"
abbreviation LF :: char where "LF \<equiv> CHR 0x0A"
abbreviation CR :: char where "CR \<equiv> CHR 0x0D"
abbreviation ESC :: char where "ESC \<equiv> CHR 0x1B"
abbreviation SPC :: char where "SPC \<equiv> CHR 0x20"

text \<open>
  \<^verbatim>\<open>size_t\<close> is unsigned and 32 bits wide (the renderer prints it with \<^verbatim>\<open>%u\<close>). Sizes are
  natural numbers; the subtractions of the source, which wrap around below zero, are
  written with \<open>size_sub\<close>, and a cast to the signed \<^verbatim>\<open>ssize_t\<close> or \<^verbatim>\<open>int\<close> with \<open>to_ssize\<close>.
\<close>

definition SIZE_MOD :: nat where
  "SIZE_MOD = 4294967296"

definition size_sub :: "nat \<Rightarrow> nat \<Rightarrow> nat" where
  "size_sub a b = (if b \<le> a then a - b else a + SIZE_MOD - b)"

definition to_ssize :: "nat \<Rightarrow> int" where
  "to_ssize n = (if n < 2147483648 then int n else int n - int SIZE_MOD)"

text \<open>\<^verbatim>\<open>printf\<close>'s \<^verbatim>\<open>%u\<close> and \<^verbatim>\<open>%d\<close>.\<close>

fun digits10 :: "nat \<Rightarrow> string" where
  "digits10 n =
     (if n < 10 then [''0123456789'' ! n]
      else digits10 (n div 10) @ [''0123456789'' ! (n mod 10)])"

declare digits10.simps [simp del]

definition sdigits10 :: "int \<Rightarrow> string" where
  "sdigits10 i = (if i < 0 then CHR ''-'' # digits10 (nat (- i)) else digits10 (nat i))"

text \<open>
  Reading a C string out of an array: the bytes before the first terminator. An array
  without a terminator makes \<^verbatim>\<open>strlen\<close>, \<^verbatim>\<open>strdup\<close>, \<^verbatim>\<open>strchr\<close> and \<^verbatim>\<open>strcmp\<close> read past its
  end: the model gives no result (\<open>None\<close>) for every access outside an array.
\<close>

definition cstr :: "string \<Rightarrow> string option" where
  "cstr m = (if NUL \<in> set m then Some (takeWhile (\<lambda>c. c \<noteq> NUL) m) else None)"

section \<open>The editor state and the process-wide state\<close>

datatype ln_mode =
    ln_init
  | ln_read_regular
  | ln_read_esc
  | ln_completion
  | ln_getColumns
  | ln_getColumns_1
  | ln_getColumns_2

text \<open>
  The host's callbacks: \<^verbatim>\<open>linenoise_hints\<close> returns \<^verbatim>\<open>NULL\<close> or an array of two strings, each
  of which may be \<^verbatim>\<open>NULL\<close>; \<^verbatim>\<open>linenoise_completion\<close> adds candidates with
  \<^verbatim>\<open>linenoiseAddCompletion\<close>, in order. The byte that \<^verbatim>\<open>linenoise_getch\<close> returns (negative: no
  byte now) is an argument of each step.
\<close>

record host =
  linenoise_hints :: "string \<Rightarrow> (string option \<times> string option) option"
  linenoise_completion :: "string \<Rightarrow> string list"

text \<open>
  \<^verbatim>\<open>struct linenoiseState l_state\<close> together with the file's other statics (\<^verbatim>\<open>mlmode\<close>,
  \<^verbatim>\<open>history_max_len\<close>, and \<^verbatim>\<open>history\<close> with \<^verbatim>\<open>history_len\<close> as the list \<open>history\<close> and its
  length), the bytes written through \<^verbatim>\<open>linenoise_write\<close> (\<open>out\<close>), the beeps written to
  \<^verbatim>\<open>stderr\<close> and \<^verbatim>\<open>errno\<close>. \<open>buf\<close> is the host's array the state points into, with all its
  bytes; \<open>buflen\<close> is the field of the struct. Allocation is assumed to succeed.
\<close>

record world =
  mode :: ln_mode
  seq :: string
  seq_idx :: nat
  completion_idx :: nat
  lc :: "string list"
  smart_term_connected :: bool
  buf :: string
  buflen :: nat
  prompt :: string
  plen :: nat
  pos :: nat
  oldpos :: nat
  len :: nat
  cols :: nat
  maxrows :: nat
  history_index :: int
  mlmode :: bool
  history_max_len :: nat
  history :: "string list"
  out :: string
  beeps :: nat
  errno :: nat

text \<open>The initial statics: \<^verbatim>\<open>l_state = { .mode = ln_getColumns }\<close>, everything else zero.\<close>

definition l_state0 :: world where
  "l_state0 =
     \<lparr> mode = ln_getColumns, seq = [NUL, NUL, NUL], seq_idx = 0, completion_idx = 0,
       lc = [], smart_term_connected = False, buf = [], buflen = 0, prompt = [],
       plen = 0, pos = 0, oldpos = 0, len = 0, cols = 0, maxrows = 0, history_index = 0,
       mlmode = False, history_max_len = 100, history = [], out = [], beeps = 0,
       errno = 0 \<rparr>"

definition linenoise_write :: "string \<Rightarrow> world \<Rightarrow> world" where
  "linenoise_write s w = w\<lparr>out := out w @ s\<rparr>"

definition linenoiseSetMultiLine :: "bool \<Rightarrow> world \<Rightarrow> world" where
  "linenoiseSetMultiLine ml w = w\<lparr>mlmode := ml\<rparr>"

text \<open>Stores and block moves in the edited array; \<open>None\<close> outside it.\<close>

definition buf_store :: "nat \<Rightarrow> char \<Rightarrow> world \<Rightarrow> world option" where
  "buf_store i c w = (if i < length (buf w) then Some (w\<lparr>buf := (buf w)[i := c]\<rparr>) else None)"

definition buf_memmove :: "nat \<Rightarrow> nat \<Rightarrow> nat \<Rightarrow> world \<Rightarrow> world option" where
  "buf_memmove dst src n w =
     (if src + n \<le> length (buf w) \<and> dst + n \<le> length (buf w)
      then Some (w\<lparr>buf := take dst (buf w) @ take n (drop src (buf w)) @ drop (dst + n) (buf w)\<rparr>)
      else None)"

text \<open>\<^verbatim>\<open>strncpy(l->buf, s, n)\<close> writes exactly \<open>n\<close> bytes: the string, then terminators.\<close>

definition buf_strncpy :: "string \<Rightarrow> nat \<Rightarrow> world \<Rightarrow> world option" where
  "buf_strncpy s n w =
     (if n \<le> length (buf w)
      then Some (w\<lparr>buf := take n (s @ replicate n NUL) @ drop n (buf w)\<rparr>)
      else None)"

text \<open>
  \<^verbatim>\<open>snprintf(l->buf, n, "%s", s)\<close> writes at most \<open>n - 1\<close> bytes of the string and a terminator
  (nothing when \<open>n = 0\<close>) and returns the length of the whole string.
\<close>

definition buf_snprintf :: "string \<Rightarrow> nat \<Rightarrow> world \<Rightarrow> (nat \<times> world) option" where
  "buf_snprintf s n w =
     (if n = 0 then Some (length s, w)
      else let k = min (length s) (n - 1) in
        if k < length (buf w)
        then Some (length s, w\<lparr>buf := take k s @ [NUL] @ drop (k + 1) (buf w)\<rparr>)
        else None)"

section \<open>History\<close>

definition linenoiseHistoryAdd :: "string \<Rightarrow> world \<Rightarrow> int \<times> world" where
  "linenoiseHistoryAdd line w =
     (if history_max_len w = 0 then (0, w)
      else if length (history w) \<noteq> 0 \<and> last (history w) = line then (0, w)
      else
        let h = (if length (history w) = history_max_len w then tl (history w) else history w)
        in (1, w\<lparr>history := h @ [line]\<rparr>))"

text \<open>
  \<^verbatim>\<open>linenoiseHistorySetMaxLen\<close> asks \<^verbatim>\<open>malloc\<close> for \<^verbatim>\<open>sizeof(char*) * len\<close> bytes, a pointer being
  four bytes wide. From \<open>2^30\<close> entries on that product does not fit \<^verbatim>\<open>size_t\<close>: the array
  the source allocates is too small for the entries it copies and later stores, or (with
  no history allocated yet) the limit it records is one no allocation can serve. The model
  gives no result for such a request.
\<close>

definition linenoiseHistorySetMaxLen :: "nat \<Rightarrow> world \<Rightarrow> (int \<times> world) option" where
  "linenoiseHistorySetMaxLen n w =
     (if n < 1 then Some (0, w)
      else if SIZE_MOD \<le> 4 * n then None
      else
        let tocopy = (if n < length (history w) then n else length (history w))
        in Some (1, w\<lparr>history := drop (length (history w) - tocopy) (history w),
                       history_max_len := n\<rparr>))"

text \<open>
  A history file is the string of its bytes; \<open>None\<close> is a file that \<^verbatim>\<open>fopen\<close> cannot
  open. \<^verbatim>\<open>linenoiseHistorySave\<close> returns its status and the file it wrote.
\<close>

primrec save_lines :: "string list \<Rightarrow> string" where
  "save_lines [] = []"
| "save_lines (e # es) = e @ [LF] @ save_lines es"

definition linenoiseHistorySave :: "bool \<Rightarrow> world \<Rightarrow> int \<times> string option" where
  "linenoiseHistorySave can_open w =
     (if \<not> can_open then (- 1, None) else (0, Some (save_lines (history w))))"

definition LINENOISE_MAX_LINE :: nat where
  "LINENOISE_MAX_LINE = 4096"

text \<open>
  \<^verbatim>\<open>fgets(buf, n, fp)\<close> with \<open>k = n - 1\<close>: at most \<open>k\<close> bytes, up to and including the first
  line feed; the bytes read and the rest of the file.
\<close>

fun fgets :: "nat \<Rightarrow> string \<Rightarrow> string \<times> string" where
  "fgets 0 fp = ([], fp)"
| "fgets (Suc k) [] = ([], [])"
| "fgets (Suc k) (c # fp) =
     (if c = LF then ([c], fp) else (c # fst (fgets k fp), snd (fgets k fp)))"

text \<open>The line cut at its first carriage return, or else at its first line feed.\<close>

definition strip_eol :: "string \<Rightarrow> string" where
  "strip_eol s =
     (let b = takeWhile (\<lambda>c. c \<noteq> NUL) s in
      if CR \<in> set b then takeWhile (\<lambda>c. c \<noteq> CR) b else takeWhile (\<lambda>c. c \<noteq> LF) b)"

lemma fgets_shorter:
  "fp \<noteq> [] \<Longrightarrow> length (snd (fgets (Suc k) fp)) < length fp"
proof (induction k arbitrary: fp)
  case 0
  then show ?case by (cases fp) auto
next
  case (Suc k)
  then obtain c cs where fp: "fp = c # cs" by (cases fp) auto
  show ?case
  proof (cases cs)
    case Nil
    with fp show ?thesis by simp
  next
    case (Cons d ds)
    with Suc.IH [of cs] fp show ?thesis by simp
  qed
qed

function load_lines :: "string \<Rightarrow> world \<Rightarrow> world" where
  "load_lines fp w =
     (if fp = [] then w
      else load_lines (snd (fgets (LINENOISE_MAX_LINE - 1) fp))
             (snd (linenoiseHistoryAdd (strip_eol (fst (fgets (LINENOISE_MAX_LINE - 1) fp))) w)))"
  by pat_completeness auto
termination
proof (relation "measure (\<lambda>(fp, w). length fp)")
  show "wf (measure (\<lambda>(fp, w). length fp))" by simp
next
  fix fp :: string and w :: world
  assume "fp \<noteq> []"
  then have "length (snd (fgets (Suc 4094) fp)) < length fp"
    by (rule fgets_shorter)
  then show "((snd (fgets (LINENOISE_MAX_LINE - 1) fp),
               snd (linenoiseHistoryAdd (strip_eol (fst (fgets (LINENOISE_MAX_LINE - 1) fp))) w)),
              fp, w) \<in> measure (\<lambda>(fp, w). length fp)"
    by (simp add: LINENOISE_MAX_LINE_def)
qed

declare load_lines.simps [simp del]

definition linenoiseHistoryLoad :: "string option \<Rightarrow> world \<Rightarrow> int \<times> world" where
  "linenoiseHistoryLoad file w =
     (case file of None \<Rightarrow> (- 1, w) | Some fp \<Rightarrow> (0, load_lines fp w))"

section \<open>Rendering\<close>

definition PROMPT_HDR :: string where
  "PROMPT_HDR = ESC # ''[1;37;49m''"

definition PROMPT_TLR :: string where
  "PROMPT_TLR = ESC # ''[0m''"

definition linenoiseBeep :: "world \<Rightarrow> world" where
  "linenoiseBeep w = w\<lparr>beeps := beeps w + 1\<rparr>"

subsection \<open>Hints\<close>

text \<open>\<^verbatim>\<open>while (*p && !stop(*p)) p++\<close>: how far the scan advances over the rest of a string.\<close>

primrec scan_until :: "(char \<Rightarrow> bool) \<Rightarrow> string \<Rightarrow> nat" where
  "scan_until stop [] = 0"
| "scan_until stop (c # cs) = (if stop c then 0 else Suc (scan_until stop cs))"

text \<open>The counting loop over the edited line.\<close>

primrec count_spaces :: "string \<Rightarrow> nat" where
  "count_spaces [] = 0"
| "count_spaces (c # cs) = (if SPC = c then Suc (count_spaces cs) else count_spaces cs)"

text \<open>
  \<^verbatim>\<open>while (arg_id--)\<close>: each round moves \<^verbatim>\<open>hint_ptr\<close> (an offset into the template \<open>t\<close>) to
  the next \<^verbatim>\<open>[\<close> and one past it when the string has not ended; \<^verbatim>\<open>arg_start\<close> is the offset
  after the last round.
\<close>

primrec locate_arg :: "nat \<Rightarrow> string \<Rightarrow> nat \<Rightarrow> nat" where
  "locate_arg 0 t i = i"
| "locate_arg (Suc k) t i =
     (let j = i + scan_until (\<lambda>c. c = CHR ''['') (drop i t)
      in locate_arg k t (if j < length t then j + 1 else j))"

definition hint_args :: "string \<Rightarrow> string \<Rightarrow> nat \<Rightarrow> string" where
  "hint_args b t abLen =
     (if SPC \<in> set b then
        let arg_id = count_spaces b;
            arg_start = locate_arg arg_id t 0;
            arg_end = (if arg_start \<noteq> 0
                       then arg_start + scan_until (\<lambda>c. c = SPC \<or> c = CHR '']'') (drop arg_start t)
                       else 0)
        in if arg_start \<noteq> arg_end then
             take (min abLen arg_start) t
             @ ESC # ''[7;35;49m''
             @ take (if abLen < arg_start then 0
                     else if abLen < arg_end then abLen - arg_start
                     else arg_end - arg_start) (drop arg_start t)
             @ ESC # ''[0;35;49m''
             @ take (if abLen < arg_end then 0 else abLen - arg_end) (drop arg_end t)
           else take abLen t
      else take abLen t)"

definition hint_bytes :: "string \<Rightarrow> string option \<times> string option \<Rightarrow> int \<Rightarrow> string" where
  "hint_bytes b hints cols_avail =
     (let t = (case fst hints of None \<Rightarrow> [] | Some s \<Rightarrow> s);
          abLen = min (length t) (nat cols_avail);
          args = (if t \<noteq> [] then hint_args b t abLen else []);
          avail1 = (if t \<noteq> [] then cols_avail - int abLen else cols_avail);
          sep = (if t \<noteq> [] \<and> avail1 > 0 then [SPC] else []);
          avail2 = (if t \<noteq> [] \<and> avail1 > 0 then avail1 - 1 else avail1);
          d = (case snd hints of None \<Rightarrow> [] | Some s \<Rightarrow> s);
          desc = (if avail2 > 0 \<and> d \<noteq> []
                  then ESC # ''[1;35;49m'' @ take (min (length d) (nat avail2)) d
                  else [])
      in SPC # ESC # ''[0;35;49m'' @ args @ sep @ desc @ ESC # ''[0m'')"

text \<open>The bytes \<^verbatim>\<open>refreshShowHints\<close> appends to the append buffer.\<close>

definition refreshShowHints :: "host \<Rightarrow> world \<Rightarrow> nat \<Rightarrow> string option" where
  "refreshShowHints h w plen' =
     (let cols_avail = to_ssize (size_sub (cols w) (plen' + len w + 1)) in
      if cols_avail > 0 then
        do { b \<leftarrow> cstr (buf w);
             Some (case linenoise_hints h b of
                     None \<Rightarrow> []
                   | Some hints \<Rightarrow> hint_bytes b hints cols_avail) }
      else Some [])"

subsection \<open>Single-line refresh\<close>

lemma mod_pred:
  fixes x M :: nat
  assumes "0 < x mod M" and M: "0 < M"
  shows "(x - 1) mod M = x mod M - 1"
proof -
  have "x = (x div M) * M + x mod M" by simp
  then have "x - 1 = (x mod M - 1) + (x div M) * M" using assms by linarith
  then have "(x - 1) mod M = (x mod M - 1) mod M" by (metis mod_mult_self1)
  moreover have "x mod M - 1 < M" using M by (meson less_imp_diff_less mod_less_divisor)
  ultimately show ?thesis by simp
qed

lemma size_mod_dec:
  assumes "0 < (a + p) mod SIZE_MOD"
  shows "(a + size_sub p 1) mod SIZE_MOD < (a + p) mod SIZE_MOD"
proof (cases "1 \<le> p")
  case True
  then have "a + size_sub p 1 = (a + p) - 1"
    by (simp add: size_sub_def)
  then show ?thesis using mod_pred [OF assms] assms by (simp add: SIZE_MOD_def)
next
  case False
  then have p: "p = 0" by simp
  have apos: "0 < a" using assms p by (cases a) simp_all
  have "a + size_sub p 1 = (a - 1) + SIZE_MOD"
    using p apos by (simp add: size_sub_def SIZE_MOD_def)
  then have "(a + size_sub p 1) mod SIZE_MOD = (a - 1) mod SIZE_MOD" by simp
  then show ?thesis using mod_pred [of a SIZE_MOD] assms p by (simp add: SIZE_MOD_def)
qed

text \<open>
  \<^verbatim>\<open>while ((plen + pos) >= l->cols) { buf++; len--; pos--; }\<close> on \<^verbatim>\<open>size_t\<close>: the offset of the
  window into the array, its length and the cursor. With no columns the loop never ends.
\<close>

function scroll_left :: "nat \<Rightarrow> nat \<Rightarrow> nat \<Rightarrow> nat \<Rightarrow> nat \<Rightarrow> (nat \<times> nat \<times> nat) option" where
  "scroll_left pl cs off n p =
     (if cs = 0 then None
      else if cs \<le> (pl + p) mod SIZE_MOD
      then scroll_left pl cs (off + 1) (size_sub n 1) (size_sub p 1)
      else Some (off, n, p))"
  by pat_completeness auto
termination
proof (relation "measure (\<lambda>(pl, cs, off, n, p). (pl + p) mod SIZE_MOD)")
  show "wf (measure (\<lambda>(pl, cs, off, n, p). (pl + p) mod SIZE_MOD))" by simp
next
  fix pl cs off n p :: nat
  assume "cs \<noteq> 0" and "cs \<le> (pl + p) mod SIZE_MOD"
  then have "0 < (pl + p) mod SIZE_MOD" by simp
  then have "(pl + size_sub p 1) mod SIZE_MOD < (pl + p) mod SIZE_MOD"
    by (rule size_mod_dec)
  then show "((pl, cs, off + 1, size_sub n 1, size_sub p 1), pl, cs, off, n, p)
      \<in> measure (\<lambda>(pl, cs, off, n, p). (pl + p) mod SIZE_MOD)"
    by simp
qed

declare scroll_left.simps [simp del]

text \<open>\<^verbatim>\<open>while (plen + len > l->cols) { len--; }\<close>\<close>

function clamp_len :: "nat \<Rightarrow> nat \<Rightarrow> nat \<Rightarrow> nat" where
  "clamp_len pl cs n =
     (if cs < (pl + n) mod SIZE_MOD then clamp_len pl cs (size_sub n 1) else n)"
  by pat_completeness auto
termination
proof (relation "measure (\<lambda>(pl, cs, n). (pl + n) mod SIZE_MOD)")
  show "wf (measure (\<lambda>(pl, cs, n). (pl + n) mod SIZE_MOD))" by simp
next
  fix pl cs n :: nat
  assume "cs < (pl + n) mod SIZE_MOD"
  then have "0 < (pl + n) mod SIZE_MOD" by simp
  then have "(pl + size_sub n 1) mod SIZE_MOD < (pl + n) mod SIZE_MOD"
    by (rule size_mod_dec)
  then show "((pl, cs, size_sub n 1), pl, cs, n) \<in> measure (\<lambda>(pl, cs, n). (pl + n) mod SIZE_MOD)"
    by simp
qed

declare clamp_len.simps [simp del]

text \<open>\<^verbatim>\<open>abAppendN(&ab, buf + off, n)\<close> reads \<open>n\<close> bytes of the array from offset \<open>off\<close>.\<close>

definition read_bytes :: "nat \<Rightarrow> nat \<Rightarrow> string \<Rightarrow> string option" where
  "read_bytes off n m = (if off + n \<le> length m then Some (take n (drop off m)) else None)"

text \<open>
  The append buffer \<^verbatim>\<open>struct abuf\<close> grows by \<^verbatim>\<open>realloc(ab->b, ab->len + len)\<close>. A buffer of
  \<open>2^32\<close> bytes or more cannot be had: the sum wraps around, or the allocation fails and the
  bytes are dropped. Allocation being assumed to succeed, a redraw has a result only when
  all its bytes fit; they are then written at once.
\<close>

definition ab_write :: "string \<Rightarrow> world \<Rightarrow> world option" where
  "ab_write ab w = (if length ab < SIZE_MOD then Some (linenoise_write ab w) else None)"

definition refreshSingleLine :: "host \<Rightarrow> bool \<Rightarrow> world \<Rightarrow> world option" where
  "refreshSingleLine h showHints w =
     do { let pl = length (prompt w);
          (off, n, p) \<leftarrow> scroll_left pl (cols w) 0 (len w) (pos w);
          let n' = clamp_len pl (cols w) n;
          window \<leftarrow> read_bytes off n' (buf w);
          hints \<leftarrow> (if showHints then refreshShowHints h w pl else Some []);
          ab_write
            ([CR] @ PROMPT_HDR @ prompt w @ PROMPT_TLR @ window @ hints
             @ ESC # ''[0K''
             @ CR # ESC # ''['' @ sdigits10 (to_ssize ((p + pl) mod SIZE_MOD)) @ ''C'') w }"

subsection \<open>Multi-line refresh\<close>

text \<open>\<^verbatim>\<open>for (j = 0; j < old_rows - 1; j++) abAppend(&ab, "\r\x1b[0K\x1b[1A");\<close>\<close>

primrec clear_rows :: "nat \<Rightarrow> string" where
  "clear_rows 0 = []"
| "clear_rows (Suc j) = CR # ESC # ''[0K'' @ ESC # ''[1A'' @ clear_rows j"

text \<open>
  Division by \<^verbatim>\<open>l->cols = 0\<close> has no result. The clearing loop appends nine bytes a round;
  when its rounds alone exceed what the append buffer can hold there is no result, which
  is decided before the bytes are laid out.
\<close>

definition refreshMultiLine :: "host \<Rightarrow> bool \<Rightarrow> world \<Rightarrow> world option" where
  "refreshMultiLine h showHints w =
     (if cols w = 0 then None
      else if SIZE_MOD \<le> 9 * size_sub (maxrows w) 1 then None
      else
        do { let pl = length (prompt w);
             let rows = (pl + len w + cols w - 1) div cols w;
             let rpos = (pl + oldpos w + cols w) div cols w;
             let old_rows = maxrows w;
             let w1 = w\<lparr>maxrows := (if rows > maxrows w then rows else maxrows w)\<rparr>;
             let down = (if size_sub old_rows rpos > 0
                         then ESC # ''['' @ digits10 (size_sub old_rows rpos) @ ''B'' else []);
             let clear = clear_rows (size_sub old_rows 1);
             line \<leftarrow> read_bytes 0 (len w1) (buf w1);
             hints \<leftarrow> (if showHints then refreshShowHints h w1 pl else Some []);
             let nl = (pos w1 \<noteq> 0 \<and> pos w1 = len w1 \<and> (pos w1 + pl) mod cols w1 = 0);
             let rows' = (if nl then rows + 1 else rows);
             let w2 = w1\<lparr>maxrows := (if nl \<and> rows' > maxrows w1 then rows' else maxrows w1)\<rparr>;
             let rpos2 = (pl + pos w2 + cols w2) div cols w2;
             let up = (if size_sub rows' rpos2 > 0
                       then ESC # ''['' @ digits10 (size_sub rows' rpos2) @ ''A'' else []);
             let col = (pl + pos w2) mod cols w2;
             let setcol = (if col \<noteq> 0 then CR # ESC # ''['' @ digits10 col @ ''C'' else [CR]);
             ab_write
               (down @ clear @ CR # ESC # ''[0K'' @ PROMPT_HDR @ prompt w2 @ PROMPT_TLR
                @ line @ hints @ (if nl then [LF, CR] else []) @ up @ setcol)
               (w2\<lparr>oldpos := pos w2\<rparr>) })"

definition refreshLine :: "host \<Rightarrow> world \<Rightarrow> world option" where
  "refreshLine h w = (if mlmode w then refreshMultiLine h True w else refreshSingleLine h True w)"

definition refreshLineNoHints :: "host \<Rightarrow> world \<Rightarrow> world option" where
  "refreshLineNoHints h w =
     (if mlmode w then refreshMultiLine h False w else refreshSingleLine h False w)"

section \<open>Edit operations\<close>

text \<open>\<^verbatim>\<open>linenoiseEditInsert\<close> returns 0 on every path.\<close>

definition linenoiseEditInsert :: "host \<Rightarrow> char \<Rightarrow> world \<Rightarrow> (int \<times> world) option" where
  "linenoiseEditInsert h c w =
     (if len w < buflen w then
        (if len w = pos w then
           do { w1 \<leftarrow> buf_store (pos w) c w;
                let w2 = w1\<lparr>pos := pos w1 + 1, len := len w1 + 1\<rparr>;
                w3 \<leftarrow> buf_store (len w2) NUL w2;
                w4 \<leftarrow> refreshLine h w3;
                Some (0, w4) }
         else
           do { w1 \<leftarrow> buf_memmove (pos w + 1) (pos w) (size_sub (len w) (pos w)) w;
                w2 \<leftarrow> buf_store (pos w1) c w1;
                let w3 = w2\<lparr>len := len w2 + 1, pos := pos w2 + 1\<rparr>;
                w4 \<leftarrow> buf_store (len w3) NUL w3;
                w5 \<leftarrow> refreshLine h w4;
                Some (0, w5) })
      else Some (0, w))"

definition linenoiseEditMoveLeft :: "host \<Rightarrow> world \<Rightarrow> world option" where
  "linenoiseEditMoveLeft h w =
     (if pos w > 0 then refreshLine h (w\<lparr>pos := pos w - 1\<rparr>) else Some w)"

definition linenoiseEditMoveRight :: "host \<Rightarrow> world \<Rightarrow> world option" where
  "linenoiseEditMoveRight h w =
     (if pos w \<noteq> len w then refreshLine h (w\<lparr>pos := pos w + 1\<rparr>) else Some w)"

definition linenoiseEditMoveHome :: "host \<Rightarrow> world \<Rightarrow> world option" where
  "linenoiseEditMoveHome h w =
     (if pos w \<noteq> 0 then refreshLine h (w\<lparr>pos := 0\<rparr>) else Some w)"

definition linenoiseEditMoveEnd :: "host \<Rightarrow> world \<Rightarrow> world option" where
  "linenoiseEditMoveEnd h w =
     (if pos w \<noteq> len w then refreshLine h (w\<lparr>pos := len w\<rparr>) else Some w)"

datatype history_dir = LINENOISE_HISTORY_NEXT | LINENOISE_HISTORY_PREV

text \<open>
  \<^verbatim>\<open>history[history_len - 1 - (size_t)l->history_index]\<close>: the slot, when it lies in the
  array.
\<close>

definition history_slot :: "world \<Rightarrow> nat option" where
  "history_slot w =
     (if 0 \<le> history_index w \<and> nat (history_index w) < length (history w)
      then Some (length (history w) - 1 - nat (history_index w)) else None)"

text \<open>
  \<^verbatim>\<open>linenoiseEditHistoryNext\<close> in its three parts: the current line is copied into its
  slot; the index moves and is clamped at both ends (returning without a redraw); the
  entry at the new index is copied into the buffer and drawn.
\<close>

definition history_show_entry :: "host \<Rightarrow> world \<Rightarrow> world option" where
  "history_show_entry h w =
     do { j \<leftarrow> history_slot w;
          w3 \<leftarrow> buf_strncpy (history w ! j) (buflen w) w;
          w4 \<leftarrow> buf_store (size_sub (buflen w3) 1) NUL w3;
          s \<leftarrow> cstr (buf w4);
          refreshLine h (w4\<lparr>len := length s, pos := length s\<rparr>) }"

definition history_move :: "host \<Rightarrow> history_dir \<Rightarrow> world \<Rightarrow> world option" where
  "history_move h dir w =
     (let i = history_index w + (if dir = LINENOISE_HISTORY_PREV then 1 else - 1) in
      if i < 0 then Some (w\<lparr>history_index := 0\<rparr>)
      else if nat i \<ge> length (history w)
      then Some (w\<lparr>history_index := int (length (history w)) - 1\<rparr>)
      else history_show_entry h (w\<lparr>history_index := i\<rparr>))"

definition linenoiseEditHistoryNext :: "host \<Rightarrow> history_dir \<Rightarrow> world \<Rightarrow> world option" where
  "linenoiseEditHistoryNext h dir w =
     (if length (history w) > 1 then
        do { i \<leftarrow> history_slot w;
             b \<leftarrow> cstr (buf w);
             history_move h dir (w\<lparr>history := (history w)[i := b]\<rparr>) }
      else Some w)"

definition linenoiseEditDelete :: "host \<Rightarrow> world \<Rightarrow> world option" where
  "linenoiseEditDelete h w =
     (if len w > 0 \<and> pos w < len w then
        do { w1 \<leftarrow> buf_memmove (pos w) (pos w + 1) (len w - pos w - 1) w;
             let w2 = w1\<lparr>len := len w1 - 1\<rparr>;
             w3 \<leftarrow> buf_store (len w2) NUL w2;
             refreshLine h w3 }
      else Some w)"

definition linenoiseEditBackspace :: "host \<Rightarrow> world \<Rightarrow> world option" where
  "linenoiseEditBackspace h w =
     (if pos w > 0 \<and> len w > 0 then
        do { w1 \<leftarrow> buf_memmove (pos w - 1) (pos w) (size_sub (len w) (pos w)) w;
             let w2 = w1\<lparr>pos := pos w1 - 1, len := len w1 - 1\<rparr>;
             w3 \<leftarrow> buf_store (len w2) NUL w2;
             refreshLine h w3 }
      else Some w)"

text \<open>The two backward scans of \<^verbatim>\<open>linenoiseEditDeletePrevWord\<close>, from a cursor inside the array.\<close>

primrec skip_back :: "(char \<Rightarrow> bool) \<Rightarrow> string \<Rightarrow> nat \<Rightarrow> nat" where
  "skip_back P m 0 = 0"
| "skip_back P m (Suc p) = (if P (m ! p) then skip_back P m p else Suc p)"

definition linenoiseEditDeletePrevWord :: "host \<Rightarrow> world \<Rightarrow> world option" where
  "linenoiseEditDeletePrevWord h w =
     (if pos w \<le> length (buf w) then
        do { let old_pos = pos w;
             let p1 = skip_back (\<lambda>c. c = SPC) (buf w) (pos w);
             let p2 = skip_back (\<lambda>c. c \<noteq> SPC) (buf w) p1;
             let w1 = w\<lparr>pos := p2\<rparr>;
             let diff = old_pos - pos w1;
             w2 \<leftarrow> buf_memmove (pos w1) old_pos ((size_sub (len w1) old_pos + 1) mod SIZE_MOD) w1;
             refreshLine h (w2\<lparr>len := size_sub (len w2) diff\<rparr>) }
      else None)"

section \<open>The engine\<close>

text \<open>
  \<^verbatim>\<open>getColumns\<close> starts with an unconditional \<^verbatim>\<open>goto failed\<close>: the switch over the probing
  modes below it (and \<^verbatim>\<open>getCursorPosition\<close>, which only that switch calls) is never
  executed. What runs is \<^verbatim>\<open>failed:\<close> and then \<^verbatim>\<open>finished:\<close>.
\<close>

definition getColumns :: "world \<Rightarrow> int \<times> world" where
  "getColumns w = (0, w\<lparr>smart_term_connected := False, cols := 80, mode := ln_init\<rparr>)"

definition linenoiseClearScreen :: "world \<Rightarrow> world" where
  "linenoiseClearScreen w =
     (linenoise_write (ESC # ''[H'' @ ESC # ''[2J'') w)\<lparr>mode := ln_getColumns\<rparr>"

subsection \<open>Completion\<close>

definition freeCompletions :: "world \<Rightarrow> world" where
  "freeCompletions w = w\<lparr>lc := []\<rparr>"

text \<open>The search loop of \<^verbatim>\<open>lnShowCompletion\<close> for a candidate that differs from the line.\<close>

function next_completion :: "string \<Rightarrow> string list \<Rightarrow> nat \<Rightarrow> nat" where
  "next_completion b cs i =
     (if i < length cs then
        (if b \<noteq> cs ! i then i else next_completion b cs ((i + 1) mod (length cs + 1)))
      else i)"
  by pat_completeness auto
termination
  by (relation "measure (\<lambda>(b, cs, i). length cs - i)") auto

declare next_completion.simps [simp del]

text \<open>
  While it draws, \<^verbatim>\<open>lnShowCompletion\<close> points \<^verbatim>\<open>ls->buf\<close> at the candidate (its bytes and
  terminator) and then restores \<^verbatim>\<open>len\<close>, \<^verbatim>\<open>pos\<close> and \<^verbatim>\<open>buf\<close> from the saved copy.
\<close>

definition lnShowCompletion :: "host \<Rightarrow> world \<Rightarrow> world option" where
  "lnShowCompletion h w =
     do { i \<leftarrow> (if completion_idx w < length (lc w)
                then do { b \<leftarrow> cstr (buf w); Some (next_completion b (lc w) (completion_idx w)) }
                else Some (completion_idx w));
          let w1 = w\<lparr>completion_idx := i\<rparr>;
          let w2 = (if i < length (lc w1)
                    then w1\<lparr>len := length (lc w1 ! i), pos := length (lc w1 ! i),
                            buf := lc w1 ! i @ [NUL]\<rparr>
                    else w1);
          w3 \<leftarrow> refreshLine h w2;
          Some (w3\<lparr>len := len w, pos := pos w, buf := buf w\<rparr>) }"

definition completeLine :: "host \<Rightarrow> world \<Rightarrow> world option" where
  "completeLine h w =
     do { b \<leftarrow> cstr (buf w);
          let w1 = w\<lparr>lc := linenoise_completion h b\<rparr>;
          if length (lc w1) = 0 then Some (freeCompletions (linenoiseBeep w1))
          else lnShowCompletion h (w1\<lparr>completion_idx := 0, mode := ln_completion\<rparr>) }"

subsection \<open>Session start and restart\<close>

text \<open>\<open>hbuf\<close> is the host's array with the bytes it holds at the call, \<open>hbuflen\<close> its stated size.\<close>

definition lnInitState :: "string \<Rightarrow> nat \<Rightarrow> string \<Rightarrow> world \<Rightarrow> world option" where
  "lnInitState hbuf hbuflen hprompt w =
     do { let w1 = w\<lparr>buf := hbuf, buflen := hbuflen, prompt := hprompt,
                     plen := length hprompt, oldpos := 0, pos := 0, len := 0, maxrows := 0,
                     history_index := 0\<rparr>;
          w2 \<leftarrow> buf_store 0 NUL w1;
          let w3 = w2\<lparr>buflen := size_sub (buflen w2) 1\<rparr>;
          let w4 = snd (linenoiseHistoryAdd [] w3);
          let w5 = (if smart_term_connected w4
                    then linenoise_write PROMPT_TLR
                           (linenoise_write hprompt (linenoise_write PROMPT_HDR w4))
                    else linenoise_write hprompt w4);
          Some (w5\<lparr>mode := ln_read_regular\<rparr>) }"

definition lnRestartState :: "world \<Rightarrow> world" where
  "lnRestartState w =
     w\<lparr>mode := (if smart_term_connected w then ln_getColumns else ln_init)\<rparr>"

subsection \<open>Escape sequences\<close>

definition lnReadEscSequence :: "host \<Rightarrow> int \<Rightarrow> world \<Rightarrow> (int \<times> world) option" where
  "lnReadEscSequence h ch w =
     (if ch < 0 then Some (- 1, w)
      else if seq_idx w \<ge> 3 then Some (- 1, w)
      else
        let w1 = w\<lparr>seq := (seq w)[seq_idx w := char_of ch], seq_idx := seq_idx w + 1\<rparr> in
        if seq_idx w1 < 2 then Some (- 1, w1)
        else if seq w1 ! 0 = CHR ''['' then
          (if (48::nat) \<le> of_char (seq w1 ! 1) \<and> of_char (seq w1 ! 1) \<le> (57::nat) then
             (if seq_idx w1 < 3 then Some (- 1, w1)
              else
                do { w2 \<leftarrow> (if seq w1 ! 2 = CHR ''~'' \<and> seq w1 ! 1 = CHR ''3''
                            then linenoiseEditDelete h w1 else Some w1);
                     Some (- 1, w2\<lparr>mode := ln_read_regular\<rparr>) })
           else
             do { w2 \<leftarrow> (if seq w1 ! 1 = CHR ''A''
                           then linenoiseEditHistoryNext h LINENOISE_HISTORY_PREV w1
                         else if seq w1 ! 1 = CHR ''B''
                           then linenoiseEditHistoryNext h LINENOISE_HISTORY_NEXT w1
                         else if seq w1 ! 1 = CHR ''C'' then linenoiseEditMoveRight h w1
                         else if seq w1 ! 1 = CHR ''D'' then linenoiseEditMoveLeft h w1
                         else if seq w1 ! 1 = CHR ''H'' then linenoiseEditMoveHome h w1
                         else if seq w1 ! 1 = CHR ''F'' then linenoiseEditMoveEnd h w1
                         else Some w1);
                  Some (- 1, w2\<lparr>mode := ln_read_regular\<rparr>) })
        else if seq w1 ! 0 = CHR ''O'' then
          do { w2 \<leftarrow> (if seq w1 ! 1 = CHR ''H'' then linenoiseEditMoveHome h w1
                      else if seq w1 ! 1 = CHR ''F'' then linenoiseEditMoveEnd h w1
                      else Some w1);
               Some (- 1, w2\<lparr>mode := ln_read_regular\<rparr>) }
        else Some (- 1, w1\<lparr>mode := ln_read_regular\<rparr>))"

subsection \<open>Key dispatch\<close>

text \<open>
  \<^verbatim>\<open>history_len--; free(history[history_len]);\<close> With an empty history the count wraps
  around and the access is outside the array.
\<close>

definition history_pop :: "world \<Rightarrow> world option" where
  "history_pop w =
     (if length (history w) = 0 then None else Some (w\<lparr>history := butlast (history w)\<rparr>))"

definition EAGAIN :: nat where
  "EAGAIN = 11"

definition lnHandleCharacter :: "host \<Rightarrow> char \<Rightarrow> world \<Rightarrow> (int \<times> world) option" where
  "lnHandleCharacter h c w =
     (if c = TAB then do { w1 \<leftarrow> completeLine h w; Some (- 1, w1) }
      else if c = CR then
        do { w1 \<leftarrow> history_pop w;
             w2 \<leftarrow> (if mlmode w1 then linenoiseEditMoveEnd h w1 else Some w1);
             w3 \<leftarrow> refreshLineNoHints h w2;
             let w4 = lnRestartState w3;
             Some (int (len w4), w4) }
      else if c = CHR 0x03 then Some (- 1, w\<lparr>errno := EAGAIN\<rparr>)
      else if c = CHR 0x7F \<or> c = CHR 0x08 then
        do { w1 \<leftarrow> linenoiseEditBackspace h w; Some (- 1, w1) }
      else if c = CHR 0x04 then
        (if len w > 0 then do { w1 \<leftarrow> linenoiseEditDelete h w; Some (- 1, w1) }
         else do { w1 \<leftarrow> history_pop w; Some (- 2, w1) })
      else if c = CHR 0x14 then
        (if pos w > 0 \<and> pos w < len w then
           do { w1 \<leftarrow> (if pos w < length (buf w)
                       then Some (w\<lparr>buf := (buf w)[pos w - 1 := buf w ! pos w,
                                                    pos w := buf w ! (pos w - 1)]\<rparr>)
                       else None);
                let w2 = (if pos w1 \<noteq> len w1 - 1 then w1\<lparr>pos := pos w1 + 1\<rparr> else w1);
                w3 \<leftarrow> refreshLine h w2;
                Some (- 1, w3) }
         else Some (- 1, w))
      else if c = CHR 0x02 then do { w1 \<leftarrow> linenoiseEditMoveLeft h w; Some (- 1, w1) }
      else if c = CHR 0x06 then do { w1 \<leftarrow> linenoiseEditMoveRight h w; Some (- 1, w1) }
      else if c = CHR 0x10 then
        do { w1 \<leftarrow> linenoiseEditHistoryNext h LINENOISE_HISTORY_PREV w; Some (- 1, w1) }
      else if c = CHR 0x0E then
        do { w1 \<leftarrow> linenoiseEditHistoryNext h LINENOISE_HISTORY_NEXT w; Some (- 1, w1) }
      else if c = ESC then Some (- 1, w\<lparr>seq_idx := 0, mode := ln_read_esc\<rparr>)
      else if c = CHR 0x15 then
        do { w1 \<leftarrow> buf_store 0 NUL w;
             w2 \<leftarrow> refreshLine h (w1\<lparr>pos := 0, len := 0\<rparr>);
             Some (- 1, w2) }
      else if c = CHR 0x0B then
        do { w1 \<leftarrow> buf_store (pos w) NUL w;
             w2 \<leftarrow> refreshLine h (w1\<lparr>len := pos w1\<rparr>);
             Some (- 1, w2) }
      else if c = CHR 0x01 then do { w1 \<leftarrow> linenoiseEditMoveHome h w; Some (- 1, w1) }
      else if c = CHR 0x05 then do { w1 \<leftarrow> linenoiseEditMoveEnd h w; Some (- 1, w1) }
      else if c = CHR 0x0C then
        do { w1 \<leftarrow> refreshLine h (linenoiseClearScreen w); Some (- 1, w1) }
      else if c = CHR 0x17 then
        do { w1 \<leftarrow> linenoiseEditDeletePrevWord h w; Some (- 1, w1) }
      else
        do { (r, w1) \<leftarrow> linenoiseEditInsert h c w;
             if r \<noteq> 0 then Some (- 1, w1) else Some (- 1, w1) })"

definition lnHandleCharacterDumb :: "char \<Rightarrow> world \<Rightarrow> (int \<times> world) option" where
  "lnHandleCharacterDumb c w =
     (if c = CR \<or> c = LF then
        do { w1 \<leftarrow> buf_store (pos w) NUL w;
             let w2 = lnRestartState w1;
             Some (int (pos w2), w2) }
      else
        do { w1 \<leftarrow> buf_store (pos w) c w;
             let w2 = w1\<lparr>pos := pos w1 + 1\<rparr>;
             if pos w2 \<ge> size_sub (buflen w2) 1 then
               do { w3 \<leftarrow> buf_store (size_sub (buflen w2) 1) NUL w2;
                    let w4 = lnRestartState w3;
                    Some (int (pos w4), w4) }
             else Some (- 1, w2) })"

definition lnCompletion :: "host \<Rightarrow> int \<Rightarrow> world \<Rightarrow> (int \<times> world) option" where
  "lnCompletion h ch w =
     (if ch < 0 then Some (- 1, w)
      else if ch = 9 then
        do { let w1 = w\<lparr>completion_idx := (completion_idx w + 1) mod (length (lc w) + 1)\<rparr>;
             let w2 = (if completion_idx w1 = length (lc w1) then linenoiseBeep w1 else w1);
             w3 \<leftarrow> lnShowCompletion h w2;
             Some (- 1, w3) }
      else
        do { w1 \<leftarrow> (if ch = 27 then
                       (if completion_idx w < length (lc w) then refreshLine h w else Some w)
                     else
                       (if completion_idx w < length (lc w) then
                          do { (n, w') \<leftarrow> buf_snprintf (lc w ! completion_idx w) (buflen w) w;
                               Some (w'\<lparr>pos := n, len := n\<rparr>) }
                        else Some w));
             lnHandleCharacter h (char_of ch) (freeCompletions (w1\<lparr>mode := ln_read_regular\<rparr>)) })"

definition lnReadUserInput :: "host \<Rightarrow> int \<Rightarrow> world \<Rightarrow> (int \<times> world) option" where
  "lnReadUserInput h ch w =
     (if ch < 0 then Some (- 1, w)
      else if smart_term_connected w then lnHandleCharacter h (char_of ch) w
      else lnHandleCharacterDumb (char_of ch) w)"

subsection \<open>The step\<close>

text \<open>
  One call of \<^verbatim>\<open>linenoiseEdit(buf, buflen, prompt)\<close>; \<open>ch\<close> is what \<^verbatim>\<open>linenoise_getch\<close> returns
  when the call reads it (every path reads it at most once). The result is the returned
  \<^verbatim>\<open>int\<close> and the state after the call, or \<open>None\<close> when the call accesses memory outside
  an array, divides by zero or does not return.
\<close>

definition linenoiseEdit ::
    "host \<Rightarrow> string \<Rightarrow> nat \<Rightarrow> string \<Rightarrow> int \<Rightarrow> world \<Rightarrow> (int \<times> world) option" where
  "linenoiseEdit h hbuf hbuflen hprompt ch w =
     (case mode w of
        ln_init \<Rightarrow>
          do { w1 \<leftarrow> lnInitState hbuf hbuflen hprompt w; lnReadUserInput h ch w1 }
      | ln_read_regular \<Rightarrow> lnReadUserInput h ch w
      | ln_read_esc \<Rightarrow> lnReadEscSequence h ch w
      | ln_completion \<Rightarrow> lnCompletion h ch w
      | _ \<Rightarrow>
          (if fst (getColumns w) < 0 then Some (- 1, snd (getColumns w))
           else do { w1 \<leftarrow> lnInitState hbuf hbuflen hprompt (snd (getColumns w));
                     lnReadUserInput h ch w1 }))"

definition smartTerminalConnected :: "world \<Rightarrow> bool" where
  "smartTerminalConnected w = smart_term_connected w"

definition linenoiseRefreshEditor :: "host \<Rightarrow> world \<Rightarrow> world option" where
  "linenoiseRefreshEditor h w =
     (if \<not> smartTerminalConnected w then Some w
      else (case mode w of
              ln_init \<Rightarrow> Some w
            | ln_getColumns \<Rightarrow> Some w
            | ln_getColumns_1 \<Rightarrow> Some w
            | ln_getColumns_2 \<Rightarrow> Some w
            | ln_completion \<Rightarrow> lnShowCompletion h w
            | _ \<Rightarrow> refreshLine h w))"

definition linenoiseUpdatePrompt :: "host \<Rightarrow> string \<Rightarrow> world \<Rightarrow> world option" where
  "linenoiseUpdatePrompt h p w = linenoiseRefreshEditor h (w\<lparr>prompt := p, plen := length p\<rparr>)"

section \<open>Runs of the public interface\<close>

text \<open>
  A call of the host into the library. \<open>Edit hbuf hbuflen hprompt ch\<close> is one
  \<^verbatim>\<open>linenoiseEdit\<close> step with the byte \<open>ch\<close> pending; \<open>HistorySave ok\<close> and
  \<open>HistoryLoad file\<close> carry what \<^verbatim>\<open>fopen\<close> finds.
\<close>

datatype api_call =
    Edit string nat string int
  | ClearScreen
  | RefreshEditor
  | UpdatePrompt string
  | SetMultiLine bool
  | HistoryAdd string
  | HistorySetMaxLen nat
  | HistorySave bool
  | HistoryLoad "string option"

fun api_step :: "host \<Rightarrow> api_call \<Rightarrow> world \<Rightarrow> world option" where
  "api_step h (Edit hbuf hbuflen hprompt ch) w =
     map_option snd (linenoiseEdit h hbuf hbuflen hprompt ch w)"
| "api_step h ClearScreen w = Some (linenoiseClearScreen w)"
| "api_step h RefreshEditor w = linenoiseRefreshEditor h w"
| "api_step h (UpdatePrompt p) w = linenoiseUpdatePrompt h p w"
| "api_step h (SetMultiLine ml) w = Some (linenoiseSetMultiLine ml w)"
| "api_step h (HistoryAdd line) w = Some (snd (linenoiseHistoryAdd line w))"
| "api_step h (HistorySetMaxLen n) w = map_option snd (linenoiseHistorySetMaxLen n w)"
| "api_step h (HistorySave ok) w = Some w"
| "api_step h (HistoryLoad file) w = Some (snd (linenoiseHistoryLoad file w))"

fun run_api :: "host \<Rightarrow> api_call list \<Rightarrow> world \<Rightarrow> world option" where
  "run_api h [] w = Some w"
| "run_api h (c # cs) w = (case api_step h c w of None \<Rightarrow> None | Some w' \<Rightarrow> run_api h cs w')"

text \<open>The weak default callbacks of the library: no hints, no completions.\<close>

definition default_host :: host where
  "default_host = \<lparr> linenoise_hints = (\<lambda>b. None), linenoise_completion = (\<lambda>b. []) \<rparr>"

section \<open>The engine on a dumb terminal\<close>

text \<open>
  What holds between the calls of a host that edits into an array of \<open>n\<close> bytes, once the
  engine runs without a smart terminal.
\<close>

definition dumb_session :: "nat \<Rightarrow> world \<Rightarrow> bool" where
  "dumb_session n w \<longleftrightarrow>
     length (buf w) = n \<and> buflen w = n - 1 \<and> pos w \<le> n - 2 \<and>
     (if mode w = ln_read_regular then pos w < n - 2 else buf w ! pos w = NUL)"

definition dumb_inv :: "nat \<Rightarrow> world \<Rightarrow> bool" where
  "dumb_inv n w \<longleftrightarrow>
     \<not> smart_term_connected w \<and> len w = 0 \<and>
     (mode w = ln_getColumns \<or>
      ((mode w = ln_init \<or> mode w = ln_read_regular) \<and> dumb_session n w))"

lemma lnInitState_dumb:
  assumes "\<not> smart_term_connected w" and "hbuf \<noteq> []"
  shows "\<exists>w1. lnInitState hbuf n p w = Some w1 \<and> \<not> smart_term_connected w1 \<and>
           mode w1 = ln_read_regular \<and> buf w1 = hbuf[0 := NUL] \<and> buflen w1 = size_sub n 1 \<and>
           pos w1 = 0 \<and> len w1 = 0 \<and> cols w1 = cols w \<and> prompt w1 = p \<and> maxrows w1 = 0 \<and>
           out w1 = out w @ p \<and> mlmode w1 = mlmode w \<and>
           history_max_len w1 = history_max_len w \<and>
           history w1 = history (snd (linenoiseHistoryAdd [] w))"
  using assms
  by (cases hbuf) (simp_all add: lnInitState_def buf_store_def linenoiseHistoryAdd_def
      linenoise_write_def Let_def)

lemma dumb_enter:
  assumes "c = CR \<or> c = LF" and "pos w < length (buf w)"
  shows "lnHandleCharacterDumb c w =
           Some (int (pos w), lnRestartState (w\<lparr>buf := (buf w)[pos w := NUL]\<rparr>))"
  using assms by (auto simp add: lnHandleCharacterDumb_def buf_store_def lnRestartState_def)

lemma dumb_store:
  assumes "c \<noteq> CR" and "c \<noteq> LF" and "pos w < length (buf w)"
    and "Suc (pos w) < size_sub (buflen w) 1"
  shows "lnHandleCharacterDumb c w =
           Some (- 1, w\<lparr>buf := (buf w)[pos w := c], pos := Suc (pos w)\<rparr>)"
  using assms by (simp add: lnHandleCharacterDumb_def buf_store_def Let_def)

lemma dumb_forced:
  assumes "c \<noteq> CR" and "c \<noteq> LF" and "pos w < length (buf w)"
    and "size_sub (buflen w) 1 \<le> Suc (pos w)" and "size_sub (buflen w) 1 < length (buf w)"
  shows "lnHandleCharacterDumb c w =
           Some (int (Suc (pos w)),
                 lnRestartState (w\<lparr>buf := (buf w)[pos w := c, size_sub (buflen w) 1 := NUL],
                                    pos := Suc (pos w)\<rparr>))"
  using assms by (simp add: lnHandleCharacterDumb_def buf_store_def Let_def lnRestartState_def)

lemma lnReadUserInput_dumb:
  assumes ns: "\<not> smart_term_connected w" and rr: "mode w = ln_read_regular" and l0: "len w = 0"
    and ses: "dumb_session n w" and n3: "3 \<le> n"
  shows "\<exists>r w'. lnReadUserInput h ch w = Some (r, w') \<and> dumb_inv n w' \<and> mode w' \<noteq> ln_getColumns
           \<and> cols w' = cols w \<and> (0 \<le> r \<longrightarrow> mode w' = ln_init \<and> r = int (pos w'))
           \<and> (r < 0 \<longrightarrow> r = - 1 \<and> mode w' = ln_read_regular)"
proof -
  from ses rr have lb: "length (buf w) = n" and bl: "buflen w = n - 1" and p: "pos w < n - 2"
    by (simp_all add: dumb_session_def)
  have pl: "pos w < length (buf w)" using lb p by simp
  have sz: "size_sub (buflen w) 1 = n - 2" using bl n3 by (auto simp add: size_sub_def)
  show ?thesis
  proof (cases "ch < 0")
    case True
    with ns rr l0 ses show ?thesis
      by (simp add: lnReadUserInput_def dumb_inv_def)
  next
    case nonneg: False
    then have ru: "lnReadUserInput h ch w = lnHandleCharacterDumb (char_of ch) w"
      using ns by (simp add: lnReadUserInput_def)
    show ?thesis
    proof (cases "char_of ch = CR \<or> char_of ch = LF")
      case True
      show ?thesis
        unfolding ru dumb_enter [OF True pl]
        using ns rr l0 lb bl p n3
        by (simp add: dumb_inv_def dumb_session_def lnRestartState_def)
    next
      case other: False
      then have c1: "char_of ch \<noteq> CR" and c2: "char_of ch \<noteq> LF" by simp_all
      show ?thesis
      proof (cases "Suc (pos w) < n - 2")
        case True
        then have "Suc (pos w) < size_sub (buflen w) 1" using sz by simp
        from dumb_store [OF c1 c2 pl this] show ?thesis
          unfolding ru using ns rr l0 lb bl True
          by (simp add: dumb_inv_def dumb_session_def)
      next
        case False
        then have eq: "Suc (pos w) = n - 2" using p by simp
        then have le: "size_sub (buflen w) 1 \<le> Suc (pos w)" using sz by simp
        have lt: "size_sub (buflen w) 1 < length (buf w)" using sz lb n3 by simp
        from dumb_forced [OF c1 c2 pl le lt] show ?thesis
          unfolding ru using ns rr l0 lb bl eq sz n3
          by (simp add: dumb_inv_def dumb_session_def lnRestartState_def)
      qed
    qed
  qed
qed

lemma linenoiseEdit_dumb:
  assumes inv: "dumb_inv n w" and hb: "length hbuf = n" and n3: "3 \<le> n"
  shows "\<exists>r w'. linenoiseEdit h hbuf n p ch w = Some (r, w') \<and> dumb_inv n w' \<and>
           mode w' \<noteq> ln_getColumns \<and> (0 \<le> r \<longrightarrow> mode w' = ln_init \<and> r = int (pos w'))
           \<and> (r < 0 \<longrightarrow> r = - 1 \<and> mode w' = ln_read_regular)"
proof (cases "mode w = ln_read_regular")
  case True
  with inv have "dumb_session n w" "\<not> smart_term_connected w" "len w = 0"
    by (simp_all add: dumb_inv_def)
  from lnReadUserInput_dumb [OF this(2) True this(3) this(1) n3, of h ch] True
  show ?thesis by (auto simp add: linenoiseEdit_def)
next
  case False
  define w0 where "w0 = (if mode w = ln_init then w else snd (getColumns w))"
  have ns0: "\<not> smart_term_connected w0"
    using inv by (simp add: w0_def getColumns_def dumb_inv_def)
  have hne: "hbuf \<noteq> []" using hb n3 by auto
  from lnInitState_dumb [OF ns0 hne, of n p] obtain w1 where
    w1: "lnInitState hbuf n p w0 = Some w1" "\<not> smart_term_connected w1"
      "mode w1 = ln_read_regular" "buf w1 = hbuf[0 := NUL]" "buflen w1 = size_sub n 1"
      "pos w1 = 0" "len w1 = 0"
    by blast
  have ses1: "dumb_session n w1"
    using w1 hb n3 by (simp add: dumb_session_def size_sub_def)
  have step: "linenoiseEdit h hbuf n p ch w = lnReadUserInput h ch w1"
    using False inv w1(1)
    by (auto simp add: linenoiseEdit_def w0_def dumb_inv_def getColumns_def)
  from lnReadUserInput_dumb [OF w1(2) w1(3) w1(7) ses1 n3, of h ch] step
  show ?thesis by auto
qed

text \<open>
  The calls of a host that edits into an array of \<open>n\<close> bytes and asks for a history whose
  array of pointers fits \<^verbatim>\<open>size_t\<close>.
\<close>

fun valid_call :: "nat \<Rightarrow> api_call \<Rightarrow> bool" where
  "valid_call n (Edit hbuf m p ch) = (m = n \<and> length hbuf = n)"
| "valid_call n (HistorySetMaxLen k) = (4 * k < SIZE_MOD)"
| "valid_call n c = True"

lemma linenoiseHistoryAdd_frame:
  "snd (linenoiseHistoryAdd line w) = w\<lparr>history := history (snd (linenoiseHistoryAdd line w))\<rparr>"
  by (simp add: linenoiseHistoryAdd_def Let_def)

lemma linenoiseHistorySetMaxLen_frame:
  assumes "linenoiseHistorySetMaxLen k w = Some (r, w')"
  shows "w' = w\<lparr>history := history w', history_max_len := history_max_len w'\<rparr>"
  using assms by (auto simp add: linenoiseHistorySetMaxLen_def Let_def split: if_splits)

lemma linenoiseHistorySetMaxLen_defined:
  assumes "4 * k < SIZE_MOD"
  shows "\<exists>r w'. linenoiseHistorySetMaxLen k w = Some (r, w')"
  using assms by (simp add: linenoiseHistorySetMaxLen_def Let_def)

lemma load_lines_frame:
  "load_lines fp w = w\<lparr>history := history (load_lines fp w)\<rparr>"
proof (induction fp w rule: load_lines.induct)
  case (1 fp w)
  show ?case
  proof (cases "fp = []")
    case True
    then show ?thesis by (simp add: load_lines.simps)
  next
    case False
    let ?w1 = "snd (linenoiseHistoryAdd (strip_eol (fst (fgets (LINENOISE_MAX_LINE - 1) fp))) w)"
    let ?fp1 = "snd (fgets (LINENOISE_MAX_LINE - 1) fp)"
    have eq: "load_lines fp w = load_lines ?fp1 ?w1"
      using False by (subst load_lines.simps) simp
    have "load_lines ?fp1 ?w1 = ?w1\<lparr>history := history (load_lines ?fp1 ?w1)\<rparr>"
      using "1.IH" [OF False] .
    also have "\<dots> = w\<lparr>history := history (load_lines ?fp1 ?w1)\<rparr>"
      by (subst linenoiseHistoryAdd_frame) simp
    finally show ?thesis using eq by simp
  qed
qed

lemma linenoiseHistoryLoad_frame:
  "snd (linenoiseHistoryLoad fl w) = w\<lparr>history := history (snd (linenoiseHistoryLoad fl w))\<rparr>"
  by (cases fl) (simp_all add: linenoiseHistoryLoad_def load_lines_frame [symmetric])

lemma dumb_inv_history [simp]: "dumb_inv n (w\<lparr>history := hs\<rparr>) = dumb_inv n w"
  by (simp add: dumb_inv_def dumb_session_def)

lemma dumb_inv_history_max [simp]: "dumb_inv n (w\<lparr>history_max_len := k\<rparr>) = dumb_inv n w"
  by (simp add: dumb_inv_def dumb_session_def)

lemma api_step_dumb:
  assumes inv: "dumb_inv n w" and ok: "valid_call n c" and n3: "3 \<le> n"
  shows "\<exists>w'. api_step h c w = Some w' \<and> dumb_inv n w'"
proof (cases c)
  case (Edit hbuf m p ch)
  with ok have "m = n" "length hbuf = n" by simp_all
  with linenoiseEdit_dumb [OF inv this(2) n3, of h p ch] Edit show ?thesis by auto
next
  case ClearScreen
  with inv show ?thesis
    by (simp add: linenoiseClearScreen_def linenoise_write_def dumb_inv_def)
next
  case RefreshEditor
  with inv show ?thesis
    by (simp add: linenoiseRefreshEditor_def smartTerminalConnected_def dumb_inv_def)
next
  case (UpdatePrompt p)
  with inv show ?thesis
    by (auto simp add: linenoiseUpdatePrompt_def linenoiseRefreshEditor_def
        smartTerminalConnected_def dumb_inv_def dumb_session_def)
next
  case (SetMultiLine ml)
  with inv show ?thesis
    by (auto simp add: linenoiseSetMultiLine_def dumb_inv_def dumb_session_def)
next
  case (HistoryAdd line)
  have "dumb_inv n (snd (linenoiseHistoryAdd line w))"
    by (subst linenoiseHistoryAdd_frame) (simp add: inv)
  with HistoryAdd show ?thesis by simp
next
  case (HistorySetMaxLen k)
  with ok have "4 * k < SIZE_MOD" by simp
  from linenoiseHistorySetMaxLen_defined [OF this, of w]
  obtain r w' where s: "linenoiseHistorySetMaxLen k w = Some (r, w')" by blast
  have "dumb_inv n w'"
    by (subst linenoiseHistorySetMaxLen_frame [OF s]) (simp add: inv)
  with HistorySetMaxLen s show ?thesis by simp
next
  case (HistorySave ok)
  with inv show ?thesis by simp
next
  case (HistoryLoad fl)
  have "dumb_inv n (snd (linenoiseHistoryLoad fl w))"
    by (subst linenoiseHistoryLoad_frame) (simp add: inv)
  with HistoryLoad show ?thesis by simp
qed

lemma run_api_dumb:
  assumes "dumb_inv n w" and "list_all (valid_call n) cs" and "3 \<le> n"
  shows "\<exists>w'. run_api h cs w = Some w' \<and> dumb_inv n w'"
  using assms
proof (induction cs arbitrary: w)
  case Nil
  then show ?case by simp
next
  case (Cons c cs)
  from Cons.prems have "valid_call n c" "list_all (valid_call n) cs" by simp_all
  from api_step_dumb [OF Cons.prems(1) this(1) Cons.prems(3), of h]
  obtain w1 where w1: "api_step h c w = Some w1" "dumb_inv n w1" by blast
  from Cons.IH [OF w1(2) \<open>list_all (valid_call n) cs\<close> Cons.prems(3)] w1(1)
  show ?case by simp
qed

lemma dumb_inv_l_state0: "dumb_inv n l_state0"
  by (simp add: dumb_inv_def l_state0_def)

text \<open>
  Claim C1, amended. The engine starts with \<open>l_state0\<close> and, because probing is disabled,
  always runs the dumb-terminal handler, which counts the stored bytes in \<open>pos\<close> and never
  touches \<open>len\<close>. For a host that edits into an array of \<open>n \<ge> 3\<close> bytes and asks for
  fewer than \<open>2^30\<close> history entries, after any calls of the public interface every
  further step returns, and after it \<open>len = 0\<close>, \<open>pos < n\<close>, the array still has its \<open>n\<close>
  bytes, the result is \<open>-1\<close> or the count \<open>pos\<close>, and when a line is returned the array is
  terminated at offset \<open>pos\<close> (not at \<open>len\<close>).
\<close>

theorem dumb_step_invariant:
  assumes "list_all (valid_call n) cs" and "length hbuf = n" and "3 \<le> n"
  shows "\<exists>w r w'. run_api h cs l_state0 = Some w \<and>
           linenoiseEdit h hbuf n p ch w = Some (r, w') \<and>
           len w' = 0 \<and> pos w' < n \<and> len w' < n \<and> length (buf w') = n \<and>
           (0 \<le> r \<longrightarrow> r = int (pos w') \<and> buf w' ! pos w' = NUL) \<and>
           (r < 0 \<longrightarrow> r = - 1)"
proof -
  from run_api_dumb [OF dumb_inv_l_state0 assms(1) assms(3), of h]
  obtain w where w: "run_api h cs l_state0 = Some w" "dumb_inv n w" by blast
  from linenoiseEdit_dumb [OF w(2) assms(2) assms(3), of h p ch]
  obtain r w' where s: "linenoiseEdit h hbuf n p ch w = Some (r, w')" "dumb_inv n w'"
    "mode w' \<noteq> ln_getColumns" "0 \<le> r \<longrightarrow> mode w' = ln_init \<and> r = int (pos w')"
    "r < 0 \<longrightarrow> r = - 1 \<and> mode w' = ln_read_regular"
    by blast
  from s(2) s(3) have ses: "dumb_session n w'" "len w' = 0"
    by (auto simp add: dumb_inv_def)
  from ses(1) assms(3) have "pos w' < n" "length (buf w') = n"
    by (auto simp add: dumb_session_def)
  moreover have "0 \<le> r \<longrightarrow> buf w' ! pos w' = NUL"
    using s(4) ses(1) by (auto simp add: dumb_session_def)
  ultimately show ?thesis using w(1) s(1) s(4) s(5) ses(2) assms(3) by auto
qed

lemmas dumb_eval = linenoiseEdit_def getColumns_def lnInitState_def lnReadUserInput_def
  lnHandleCharacterDumb_def lnRestartState_def buf_store_def linenoiseHistoryAdd_def
  linenoise_write_def size_sub_def SIZE_MOD_def char_of_def l_state0_def


theorem dumb_step_invariant_witness:
  "list_all (valid_call 8) [Edit (replicate 8 NUL) 8 ''> '' 97] \<and>
   length (replicate 8 NUL) = (8::nat) \<and> (3::nat) \<le> 8 \<and>
   (\<exists>w r w'. run_api default_host [Edit (replicate 8 NUL) 8 ''> '' 97] l_state0 = Some w \<and>
      linenoiseEdit default_host (replicate 8 NUL) 8 ''> '' 13 w = Some (r, w') \<and>
      len w' = 0 \<and> pos w' < 8 \<and> len w' < 8 \<and> length (buf w') = 8 \<and>
      (0 \<le> r \<longrightarrow> r = int (pos w') \<and> buf w' ! pos w' = NUL) \<and> (r < 0 \<longrightarrow> r = - 1)) \<and>
   map_option fst (linenoiseEdit default_host (replicate 8 NUL) 8 ''> '' 13
      (the (run_api default_host [Edit (replicate 8 NUL) 8 ''> '' 97] l_state0))) = Some 1"
  using dumb_step_invariant [of 8 "[Edit (replicate 8 NUL) 8 ''> '' 97]" "replicate 8 NUL"
      default_host "''> ''" 13]
  by (simp add: dumb_eval)


text \<open>
  Claim C1 as stated fails at the first byte: after the step that reads \<open>a\<close> the cursor is 1,
  the length is 0 and the byte at offset \<open>len\<close> is \<open>a\<close>, not the terminator.
\<close>

theorem pos_exceeds_len_counterexample:
  "linenoiseEdit default_host (replicate 8 NUL) 8 ''> '' 97 l_state0 \<noteq> None \<and>
   pos (snd (the (linenoiseEdit default_host (replicate 8 NUL) 8 ''> '' 97 l_state0))) = 1 \<and>
   len (snd (the (linenoiseEdit default_host (replicate 8 NUL) 8 ''> '' 97 l_state0))) = 0 \<and>
   buf (snd (the (linenoiseEdit default_host (replicate 8 NUL) 8 ''> '' 97 l_state0))) ! 0 = CHR ''a''"
  by (simp add: dumb_eval)

subsection \<open>Probing\<close>

definition dumb_modes :: "world \<Rightarrow> bool" where
  "dumb_modes w \<longleftrightarrow>
     \<not> smart_term_connected w \<and>
     (mode w = ln_getColumns \<or> mode w = ln_init \<or> mode w = ln_read_regular)"

lemma lnInitState_fields:
  assumes "lnInitState hbuf n p w = Some w1"
  shows "cols w1 = cols w \<and> smart_term_connected w1 = smart_term_connected w \<and>
         mode w1 = ln_read_regular"
  using assms
  by (auto simp add: lnInitState_def buf_store_def linenoiseHistoryAdd_def linenoise_write_def
      Let_def split: if_splits)

lemma lnHandleCharacterDumb_fields:
  assumes "lnHandleCharacterDumb c w = Some (r, w')" and "\<not> smart_term_connected w"
  shows "cols w' = cols w \<and> \<not> smart_term_connected w' \<and> (mode w' = mode w \<or> mode w' = ln_init)"
  using assms
  by (auto simp add: lnHandleCharacterDumb_def buf_store_def lnRestartState_def Let_def
      split: if_splits)

lemma lnReadUserInput_fields:
  assumes "lnReadUserInput h ch w = Some (r, w')" and "\<not> smart_term_connected w"
  shows "cols w' = cols w \<and> \<not> smart_term_connected w' \<and> (mode w' = mode w \<or> mode w' = ln_init)"
proof (cases "ch < 0")
  case True
  with assms show ?thesis by (simp add: lnReadUserInput_def)
next
  case False
  with assms have "lnHandleCharacterDumb (char_of ch) w = Some (r, w')"
    by (simp add: lnReadUserInput_def)
  from lnHandleCharacterDumb_fields [OF this assms(2)] show ?thesis .
qed

lemma linenoiseEdit_init_fields:
  assumes "lnInitState hbuf n p w0 \<bind> lnReadUserInput h ch = Some (r, w')"
    and "\<not> smart_term_connected w0"
  shows "cols w' = cols w0 \<and> \<not> smart_term_connected w' \<and>
         (mode w' = ln_read_regular \<or> mode w' = ln_init)"
proof -
  from assms(1) obtain w1 where w1: "lnInitState hbuf n p w0 = Some w1"
    and r: "lnReadUserInput h ch w1 = Some (r, w')"
    by (auto simp add: bind_eq_Some_conv)
  from lnInitState_fields [OF w1] assms(2)
  have f: "cols w1 = cols w0" "\<not> smart_term_connected w1" "mode w1 = ln_read_regular" by simp_all
  from lnReadUserInput_fields [OF r f(2)] f show ?thesis by auto
qed

lemma linenoiseEdit_getColumns:
  assumes "mode w = ln_getColumns \<or> mode w = ln_getColumns_1 \<or> mode w = ln_getColumns_2"
  shows "linenoiseEdit h hbuf n p ch w =
           lnInitState hbuf n p (w\<lparr>smart_term_connected := False, cols := 80, mode := ln_init\<rparr>)
             \<bind> lnReadUserInput h ch"
  using assms by (auto simp add: linenoiseEdit_def getColumns_def)

lemma linenoiseEdit_dumb_modes:
  assumes "dumb_modes w" and "linenoiseEdit h hbuf n p ch w = Some (r, w')"
  shows "dumb_modes w'"
proof -
  from assms(1) have ns: "\<not> smart_term_connected w" by (simp add: dumb_modes_def)
  from assms(1) consider "mode w = ln_getColumns" | "mode w = ln_init" | "mode w = ln_read_regular"
    by (auto simp add: dumb_modes_def)
  then show ?thesis
  proof cases
    case 1
    then have "lnInitState hbuf n p (w\<lparr>smart_term_connected := False, cols := 80, mode := ln_init\<rparr>)
                 \<bind> lnReadUserInput h ch = Some (r, w')"
      using assms(2) linenoiseEdit_getColumns [of w h hbuf n p ch] by simp
    from linenoiseEdit_init_fields [OF this] show ?thesis by (auto simp add: dumb_modes_def)
  next
    case 2
    then have "lnInitState hbuf n p w \<bind> lnReadUserInput h ch = Some (r, w')"
      using assms(2) by (simp add: linenoiseEdit_def)
    from linenoiseEdit_init_fields [OF this ns] show ?thesis by (auto simp add: dumb_modes_def)
  next
    case 3
    then have "lnReadUserInput h ch w = Some (r, w')"
      using assms(2) by (simp add: linenoiseEdit_def)
    from lnReadUserInput_fields [OF this ns] 3 show ?thesis by (auto simp add: dumb_modes_def)
  qed
qed

lemma dumb_modes_history [simp]: "dumb_modes (w\<lparr>history := hs\<rparr>) = dumb_modes w"
  by (simp add: dumb_modes_def)

lemma dumb_modes_history_max [simp]: "dumb_modes (w\<lparr>history_max_len := k\<rparr>) = dumb_modes w"
  by (simp add: dumb_modes_def)

lemma api_step_dumb_modes:
  assumes "dumb_modes w" and "api_step h c w = Some w'"
  shows "dumb_modes w'"
proof (cases c)
  case (Edit hbuf m p ch)
  with assms(2) obtain r where "linenoiseEdit h hbuf m p ch w = Some (r, w')" by auto
  from linenoiseEdit_dumb_modes [OF assms(1) this] show ?thesis .
next
  case ClearScreen
  with assms show ?thesis
    by (auto simp add: linenoiseClearScreen_def linenoise_write_def dumb_modes_def)
next
  case RefreshEditor
  with assms show ?thesis
    by (auto simp add: linenoiseRefreshEditor_def smartTerminalConnected_def dumb_modes_def)
next
  case (UpdatePrompt p)
  with assms show ?thesis
    by (auto simp add: linenoiseUpdatePrompt_def linenoiseRefreshEditor_def
        smartTerminalConnected_def dumb_modes_def)
next
  case (SetMultiLine ml)
  with assms show ?thesis
    by (auto simp add: linenoiseSetMultiLine_def dumb_modes_def)
next
  case (HistoryAdd line)
  have "dumb_modes (snd (linenoiseHistoryAdd line w))"
    by (subst linenoiseHistoryAdd_frame) (simp add: assms(1))
  with HistoryAdd assms(2) show ?thesis by auto
next
  case (HistorySetMaxLen k)
  with assms(2) obtain r where s: "linenoiseHistorySetMaxLen k w = Some (r, w')" by auto
  show ?thesis
    by (subst linenoiseHistorySetMaxLen_frame [OF s]) (simp add: assms(1))
next
  case (HistorySave ok)
  with assms show ?thesis by auto
next
  case (HistoryLoad fl)
  have "dumb_modes (snd (linenoiseHistoryLoad fl w))"
    by (subst linenoiseHistoryLoad_frame) (simp add: assms(1))
  with HistoryLoad assms(2) show ?thesis by auto
qed

lemma run_api_dumb_modes:
  assumes "dumb_modes w" and "run_api h cs w = Some w'"
  shows "dumb_modes w'"
  using assms
proof (induction cs arbitrary: w)
  case Nil
  then show ?case by simp
next
  case (Cons c cs)
  from Cons.prems(2) obtain w1 where w1: "api_step h c w = Some w1" "run_api h cs w1 = Some w'"
    by (auto split: option.splits)
  from Cons.IH [OF api_step_dumb_modes [OF Cons.prems(1) w1(1)] w1(2)] show ?case .
qed

subsection \<open>One step, exactly\<close>

lemma lnReadUserInput_dumb_exact:
  assumes ns: "\<not> smart_term_connected w" and rr: "mode w = ln_read_regular"
    and ses: "dumb_session n w" and n3: "3 \<le> n"
  shows "lnReadUserInput h ch w = Some
     (if ch < 0 then (- 1, w)
      else if char_of ch = CR \<or> char_of ch = LF
        then (int (pos w), w\<lparr>buf := (buf w)[pos w := NUL], mode := ln_init\<rparr>)
      else if Suc (pos w) < n - 2
        then (- 1, w\<lparr>buf := (buf w)[pos w := char_of ch], pos := Suc (pos w)\<rparr>)
      else (int (n - 2),
            w\<lparr>buf := (buf w)[pos w := char_of ch, n - 2 := NUL], pos := n - 2,
              mode := ln_init\<rparr>))"
proof -
  from ses rr have lb: "length (buf w) = n" and bl: "buflen w = n - 1" and p: "pos w < n - 2"
    by (simp_all add: dumb_session_def)
  have pl: "pos w < length (buf w)" using lb p by simp
  have sz: "size_sub (buflen w) 1 = n - 2" using bl n3 by (auto simp add: size_sub_def)
  show ?thesis
  proof (cases "ch < 0")
    case True
    then show ?thesis by (simp add: lnReadUserInput_def)
  next
    case nonneg: False
    then have ru: "lnReadUserInput h ch w = lnHandleCharacterDumb (char_of ch) w"
      using ns by (simp add: lnReadUserInput_def)
    show ?thesis
    proof (cases "char_of ch = CR \<or> char_of ch = LF")
      case True
      show ?thesis
        unfolding ru dumb_enter [OF True pl]
        using ns nonneg True by (simp add: lnRestartState_def)
    next
      case other: False
      then have c1: "char_of ch \<noteq> CR" and c2: "char_of ch \<noteq> LF" by simp_all
      show ?thesis
      proof (cases "Suc (pos w) < n - 2")
        case True
        then have "Suc (pos w) < size_sub (buflen w) 1" using sz by simp
        from dumb_store [OF c1 c2 pl this] show ?thesis
          unfolding ru using nonneg other True by simp
      next
        case False
        then have eq: "Suc (pos w) = n - 2" using p by simp
        then have le: "size_sub (buflen w) 1 \<le> Suc (pos w)" using sz by simp
        have lt: "size_sub (buflen w) 1 < length (buf w)" using sz lb n3 by simp
        from dumb_forced [OF c1 c2 pl le lt] show ?thesis
          unfolding ru using ns nonneg other False eq sz by (simp add: lnRestartState_def)
      qed
    qed
  qed
qed

lemma linenoiseHistoryAdd_probe [simp]:
  "history (snd (linenoiseHistoryAdd line
      (w\<lparr>smart_term_connected := s, cols := c, mode := m\<rparr>))) =
   history (snd (linenoiseHistoryAdd line w))"
  by (simp add: linenoiseHistoryAdd_def Let_def)

lemma linenoiseEdit_dumb_session:
  assumes inv: "dumb_inv n w" and hb: "length hbuf = n" and n3: "3 \<le> n"
  shows "\<exists>w1. linenoiseEdit h hbuf n p ch w = lnReadUserInput h ch w1 \<and>
     \<not> smart_term_connected w1 \<and> mode w1 = ln_read_regular \<and> len w1 = 0 \<and>
     dumb_session n w1 \<and>
     pos w1 = (if mode w = ln_read_regular then pos w else 0) \<and>
     buf w1 = (if mode w = ln_read_regular then buf w else hbuf[0 := NUL]) \<and>
     history w1 = (if mode w = ln_read_regular then history w
                   else history (snd (linenoiseHistoryAdd [] w))) \<and>
     history_max_len w1 = history_max_len w \<and>
     out w1 = (if mode w = ln_read_regular then out w else out w @ p) \<and>
     maxrows w1 = (if mode w = ln_read_regular then maxrows w else 0) \<and>
     mlmode w1 = mlmode w"
proof (cases "mode w = ln_read_regular")
  case True
  with inv show ?thesis
    by (intro exI [of _ w]) (simp add: linenoiseEdit_def dumb_inv_def)
next
  case False
  define w0 where "w0 = (if mode w = ln_init then w else snd (getColumns w))"
  have ns0: "\<not> smart_term_connected w0"
    using inv by (simp add: w0_def getColumns_def dumb_inv_def)
  have hne: "hbuf \<noteq> []" using hb n3 by auto
  from lnInitState_dumb [OF ns0 hne, of n p] obtain w1 where
    w1: "lnInitState hbuf n p w0 = Some w1" "\<not> smart_term_connected w1"
      "mode w1 = ln_read_regular" "buf w1 = hbuf[0 := NUL]" "buflen w1 = size_sub n 1"
      "pos w1 = 0" "len w1 = 0" "maxrows w1 = 0" "out w1 = out w0 @ p" "mlmode w1 = mlmode w0"
      "history_max_len w1 = history_max_len w0"
      "history w1 = history (snd (linenoiseHistoryAdd [] w0))"
    by blast
  have ses1: "dumb_session n w1"
    using w1 hb n3 by (simp add: dumb_session_def size_sub_def)
  have step: "linenoiseEdit h hbuf n p ch w = lnReadUserInput h ch w1"
    using False inv w1(1)
    by (auto simp add: linenoiseEdit_def w0_def dumb_inv_def getColumns_def)
  have f0: "out w0 = out w" "mlmode w0 = mlmode w" "history_max_len w0 = history_max_len w"
    "history (snd (linenoiseHistoryAdd [] w0)) = history (snd (linenoiseHistoryAdd [] w))"
    by (simp_all add: w0_def getColumns_def)
  show ?thesis
    using False step w1 ses1 f0 by (intro exI [of _ w1]) simp
qed

lemma dumb_step_exact:
  assumes inv: "dumb_inv n w" and hb: "length hbuf = n" and n3: "3 \<le> n"
  defines "p0 \<equiv> (if mode w = ln_read_regular then pos w else 0)"
    and "b0 \<equiv> (if mode w = ln_read_regular then buf w else hbuf[0 := NUL])"
  shows "\<exists>r w'. linenoiseEdit h hbuf n p ch w = Some (r, w') \<and>
     r = (if ch < 0 then - 1
          else if char_of ch = CR \<or> char_of ch = LF then int p0
          else if Suc p0 < n - 2 then - 1 else int (n - 2)) \<and>
     buf w' = (if ch < 0 then b0
               else if char_of ch = CR \<or> char_of ch = LF then b0[p0 := NUL]
               else if Suc p0 < n - 2 then b0[p0 := char_of ch]
               else b0[p0 := char_of ch, n - 2 := NUL]) \<and>
     pos w' = (if ch < 0 \<or> char_of ch = CR \<or> char_of ch = LF then p0 else Suc p0) \<and>
     mode w' = (if 0 \<le> r then ln_init else ln_read_regular) \<and>
     history w' = (if mode w = ln_read_regular then history w
                   else history (snd (linenoiseHistoryAdd [] w))) \<and>
     history_max_len w' = history_max_len w \<and>
     out w' = (if mode w = ln_read_regular then out w else out w @ p) \<and>
     maxrows w' = (if mode w = ln_read_regular then maxrows w else 0) \<and>
     mlmode w' = mlmode w \<and>
     \<not> smart_term_connected w' \<and> len w' = 0 \<and> buflen w' = n - 1 \<and> length b0 = n \<and>
     p0 < n - 2"
proof -
  from linenoiseEdit_dumb_session [OF inv hb n3, of h p ch] obtain w1 where
    w1: "linenoiseEdit h hbuf n p ch w = lnReadUserInput h ch w1"
      "\<not> smart_term_connected w1" "mode w1 = ln_read_regular" "len w1 = 0"
      "dumb_session n w1" "pos w1 = p0" "buf w1 = b0"
      "history w1 = (if mode w = ln_read_regular then history w
                   else history (snd (linenoiseHistoryAdd [] w)))"
      "history_max_len w1 = history_max_len w"
      "out w1 = (if mode w = ln_read_regular then out w else out w @ p)"
      "maxrows w1 = (if mode w = ln_read_regular then maxrows w else 0)"
      "mlmode w1 = mlmode w"
    unfolding p0_def b0_def by blast
  from w1(5) w1(3) w1(6) w1(7) have s: "length b0 = n" "buflen w1 = n - 1" "p0 < n - 2"
    by (simp_all add: dumb_session_def)
  show ?thesis
    unfolding w1(1) lnReadUserInput_dumb_exact [OF w1(2) w1(3) w1(5) n3]
    using w1(2-4) w1(6-12) s n3 by simp
qed

subsection \<open>Probing and the start of a session\<close>

text \<open>
  Claim C3. A step taken in any of the three column-probing modes runs \<^verbatim>\<open>getColumns\<close> to its
  end in that call: \<^verbatim>\<open>getColumns\<close> returns 0, never the \<open>-1\<close> of a suspended probe, and sets 80
  columns and no smart terminal; the call then initialises the session with the host's
  array and prompt and reads the pending byte, all in the same call. With an array that
  has a first byte the session starts with an empty line and the prompt written; with an
  array of three bytes or more the call returns. After it the mode is \<open>ln_read_regular\<close>
  or (after a commit) \<open>ln_init\<close>. No state reached from the initial one through the public
  interface has a smart terminal or is in one of the two waiting modes of the probe.
\<close>

theorem probing_statically_disabled:
  "(mode w = ln_getColumns \<or> mode w = ln_getColumns_1 \<or> mode w = ln_getColumns_2 \<longrightarrow>
      getColumns w = (0, w\<lparr>smart_term_connected := False, cols := 80, mode := ln_init\<rparr>) \<and>
      linenoiseEdit h hbuf n p ch w =
        lnInitState hbuf n p (w\<lparr>smart_term_connected := False, cols := 80, mode := ln_init\<rparr>)
          \<bind> lnReadUserInput h ch \<and>
      (hbuf \<noteq> [] \<longrightarrow>
         (\<exists>w1. lnInitState hbuf n p
                  (w\<lparr>smart_term_connected := False, cols := 80, mode := ln_init\<rparr>) = Some w1 \<and>
               linenoiseEdit h hbuf n p ch w = lnReadUserInput h ch w1 \<and>
               \<not> smart_term_connected w1 \<and> cols w1 = 80 \<and> mode w1 = ln_read_regular \<and>
               buf w1 = hbuf[0 := NUL] \<and> buflen w1 = size_sub n 1 \<and> pos w1 = 0 \<and> len w1 = 0 \<and>
               prompt w1 = p \<and> out w1 = out w @ p \<and>
               history w1 = history (snd (linenoiseHistoryAdd [] w)))) \<and>
      (length hbuf = n \<and> 3 \<le> n \<longrightarrow> (\<exists>r w'. linenoiseEdit h hbuf n p ch w = Some (r, w'))) \<and>
      (\<forall>r w'. linenoiseEdit h hbuf n p ch w = Some (r, w') \<longrightarrow>
         cols w' = 80 \<and> \<not> smart_term_connected w' \<and>
         (mode w' = ln_read_regular \<or> mode w' = ln_init))) \<and>
   (\<forall>cs w'. run_api h cs l_state0 = Some w' \<longrightarrow>
      \<not> smart_term_connected w' \<and> mode w' \<noteq> ln_getColumns_1 \<and> mode w' \<noteq> ln_getColumns_2)"
proof (intro conjI impI allI)
  show "getColumns w = (0, w\<lparr>smart_term_connected := False, cols := 80, mode := ln_init\<rparr>)"
    by (simp add: getColumns_def)
next
  assume m: "mode w = ln_getColumns \<or> mode w = ln_getColumns_1 \<or> mode w = ln_getColumns_2"
  show "linenoiseEdit h hbuf n p ch w =
        lnInitState hbuf n p (w\<lparr>smart_term_connected := False, cols := 80, mode := ln_init\<rparr>)
          \<bind> lnReadUserInput h ch"
    by (rule linenoiseEdit_getColumns [OF m])
next
  let ?w0 = "w\<lparr>smart_term_connected := False, cols := 80, mode := ln_init\<rparr>"
  assume m: "mode w = ln_getColumns \<or> mode w = ln_getColumns_1 \<or> mode w = ln_getColumns_2"
    and hne: "hbuf \<noteq> []"
  have "\<not> smart_term_connected ?w0" by simp
  from lnInitState_dumb [OF this hne, of n p] obtain w1 where
    w1: "lnInitState hbuf n p ?w0 = Some w1" "\<not> smart_term_connected w1"
      "mode w1 = ln_read_regular" "buf w1 = hbuf[0 := NUL]" "buflen w1 = size_sub n 1"
      "pos w1 = 0" "len w1 = 0" "cols w1 = cols ?w0" "prompt w1 = p" "out w1 = out ?w0 @ p"
      "history w1 = history (snd (linenoiseHistoryAdd [] ?w0))"
    by blast
  have "linenoiseEdit h hbuf n p ch w = lnReadUserInput h ch w1"
    unfolding linenoiseEdit_getColumns [OF m] w1(1) by simp
  with w1 show "\<exists>w1. lnInitState hbuf n p ?w0 = Some w1 \<and>
               linenoiseEdit h hbuf n p ch w = lnReadUserInput h ch w1 \<and>
               \<not> smart_term_connected w1 \<and> cols w1 = 80 \<and> mode w1 = ln_read_regular \<and>
               buf w1 = hbuf[0 := NUL] \<and> buflen w1 = size_sub n 1 \<and> pos w1 = 0 \<and> len w1 = 0 \<and>
               prompt w1 = p \<and> out w1 = out w @ p \<and>
               history w1 = history (snd (linenoiseHistoryAdd [] w))"
    by (intro exI [of _ w1]) simp
next
  let ?w0 = "w\<lparr>smart_term_connected := False, cols := 80, mode := ln_init\<rparr>"
  assume m: "mode w = ln_getColumns \<or> mode w = ln_getColumns_1 \<or> mode w = ln_getColumns_2"
    and v: "length hbuf = n \<and> 3 \<le> n"
  then have hne: "hbuf \<noteq> []" by auto
  have "\<not> smart_term_connected ?w0" by simp
  from lnInitState_dumb [OF this hne, of n p] obtain w1 where
    w1: "lnInitState hbuf n p ?w0 = Some w1" "\<not> smart_term_connected w1"
      "mode w1 = ln_read_regular" "buf w1 = hbuf[0 := NUL]" "buflen w1 = size_sub n 1"
      "pos w1 = 0" "len w1 = 0"
    by blast
  have ses1: "dumb_session n w1"
    using w1 v by (simp add: dumb_session_def size_sub_def)
  have "linenoiseEdit h hbuf n p ch w = lnReadUserInput h ch w1"
    unfolding linenoiseEdit_getColumns [OF m] w1(1) by simp
  with lnReadUserInput_dumb_exact [OF w1(2) w1(3) ses1, of h ch] v
  show "\<exists>r w'. linenoiseEdit h hbuf n p ch w = Some (r, w')" by simp
next
  fix r w'
  assume m: "mode w = ln_getColumns \<or> mode w = ln_getColumns_1 \<or> mode w = ln_getColumns_2"
    and s: "linenoiseEdit h hbuf n p ch w = Some (r, w')"
  from s have "lnInitState hbuf n p (w\<lparr>smart_term_connected := False, cols := 80, mode := ln_init\<rparr>)
                 \<bind> lnReadUserInput h ch = Some (r, w')"
    unfolding linenoiseEdit_getColumns [OF m] .
  from linenoiseEdit_init_fields [OF this]
  have f: "cols w' = 80 \<and> \<not> smart_term_connected w' \<and> (mode w' = ln_read_regular \<or> mode w' = ln_init)"
    by simp
  from f show "cols w' = 80" by simp
  from f show "\<not> smart_term_connected w'" by simp
  from f show "mode w' = ln_read_regular \<or> mode w' = ln_init" by simp
next
  fix cs w'
  assume r: "run_api h cs l_state0 = Some w'"
  have "dumb_modes l_state0" by (simp add: dumb_modes_def l_state0_def)
  from run_api_dumb_modes [OF this r]
  have d: "dumb_modes w'" .
  from d show "\<not> smart_term_connected w'" by (simp add: dumb_modes_def)
  from d show "mode w' \<noteq> ln_getColumns_1" by (auto simp add: dumb_modes_def)
  from d show "mode w' \<noteq> ln_getColumns_2" by (auto simp add: dumb_modes_def)
qed

theorem probing_statically_disabled_witness:
  "mode l_state0 = ln_getColumns \<and> [NUL, NUL, NUL, NUL] \<noteq> [] \<and>
   length [NUL, NUL, NUL, NUL] = (4::nat) \<and> (3::nat) \<le> 4 \<and>
   getColumns l_state0 =
     (0, l_state0\<lparr>smart_term_connected := False, cols := 80, mode := ln_init\<rparr>) \<and>
   linenoiseEdit default_host [NUL, NUL, NUL, NUL] 4 ''> '' 97 l_state0 =
     Some (- 1, l_state0\<lparr>cols := 80, buf := [CHR ''a'', NUL, NUL, NUL], buflen := 3,
                        prompt := ''> '', plen := 2, pos := 1, history := [[]], out := ''> '',
                        mode := ln_read_regular\<rparr>) \<and>
   linenoiseEdit default_host [NUL, NUL, NUL, NUL] 4 ''> '' 97 l_state0 =
     lnInitState [NUL, NUL, NUL, NUL] 4 ''> ''
       (l_state0\<lparr>smart_term_connected := False, cols := 80, mode := ln_init\<rparr>)
       \<bind> lnReadUserInput default_host 97 \<and>
   \<not> smart_term_connected
       (the (run_api default_host
               [Edit [NUL, NUL, NUL, NUL] 4 ''> '' 97, Edit [NUL, NUL, NUL, NUL] 4 ''> '' 13]
               l_state0))"
  using probing_statically_disabled [of l_state0 default_host "[NUL, NUL, NUL, NUL]" 4 "''> ''" 97]
  by (simp add: dumb_eval)

lemma replicate_numeral_Cons: "replicate (numeral k) x = x # replicate (pred_numeral k) x"
  by (simp add: numeral_eq_Suc)

lemmas run_eval = dumb_eval replicate_numeral_Cons

subsection \<open>The forced commit of a full buffer\<close>

text \<open>
  Claim C9, amended. The host edits into an array of \<open>n \<ge> 3\<close> bytes and asks for fewer
  than \<open>2^30\<close> history entries; the field \<open>buflen\<close> of the state is \<open>n - 1\<close>. In every state
  reached from the initial one, a byte other than
  carriage return and line feed is stored at the cursor and raises \<open>pos\<close> by one. When
  \<open>pos\<close> thereby reaches \<open>buflen - 1 = n - 2\<close>, the same step writes the terminator at
  offset \<open>n - 2\<close>, the last slot but one (the last slot, \<open>n - 1\<close>, keeps its byte), sets the
  mode to \<open>ln_init\<close> and returns the count \<open>n - 2\<close>; with a three-byte array this is the
  step that starts the session. Otherwise the step returns \<open>-1\<close> and stays in the reading
  mode.
\<close>

theorem forced_commit_of_full_buffer:
  assumes "list_all (valid_call n) cs" and "length hbuf = n" and "3 \<le> n"
    and "0 \<le> ch" and "char_of ch \<noteq> CR" and "char_of ch \<noteq> LF"
  shows "\<exists>w r w'. run_api h cs l_state0 = Some w \<and>
     linenoiseEdit h hbuf n p ch w = Some (r, w') \<and>
     (let p0 = (if mode w = ln_read_regular then pos w else 0);
          b0 = (if mode w = ln_read_regular then buf w else hbuf[0 := NUL])
      in length b0 = n \<and> buflen w' = n - 1 \<and> pos w' = Suc p0 \<and>
         (if pos w' = buflen w' - 1
          then r = int (n - 2) \<and> buf w' = b0[p0 := char_of ch, n - 2 := NUL] \<and>
               buf w' ! (n - 2) = NUL \<and> buf w' ! (n - 1) = b0 ! (n - 1) \<and> mode w' = ln_init
          else r = - 1 \<and> buf w' = b0[p0 := char_of ch] \<and> mode w' = ln_read_regular))"
proof -
  from run_api_dumb [OF dumb_inv_l_state0 assms(1) assms(3), of h]
  obtain w where w: "run_api h cs l_state0 = Some w" "dumb_inv n w" by blast
  define p0 where "p0 = (if mode w = ln_read_regular then pos w else 0)"
  define b0 where "b0 = (if mode w = ln_read_regular then buf w else hbuf[0 := NUL])"
  from dumb_step_exact [OF w(2) assms(2) assms(3), of h p ch]
  obtain r w' where s: "linenoiseEdit h hbuf n p ch w = Some (r, w')"
    "r = (if Suc p0 < n - 2 then - 1 else int (n - 2))"
    "buf w' = (if Suc p0 < n - 2 then b0[p0 := char_of ch]
               else b0[p0 := char_of ch, n - 2 := NUL])"
    "pos w' = Suc p0" "mode w' = (if 0 \<le> r then ln_init else ln_read_regular)"
    "buflen w' = n - 1" "length b0 = n" "p0 < n - 2"
    using assms(4-6) unfolding p0_def b0_def by auto
  have "length b0 = n \<and> buflen w' = n - 1 \<and> pos w' = Suc p0 \<and>
         (if pos w' = buflen w' - 1
          then r = int (n - 2) \<and> buf w' = b0[p0 := char_of ch, n - 2 := NUL] \<and>
               buf w' ! (n - 2) = NUL \<and> buf w' ! (n - 1) = b0 ! (n - 1) \<and> mode w' = ln_init
          else r = - 1 \<and> buf w' = b0[p0 := char_of ch] \<and> mode w' = ln_read_regular)"
    using s(2-8) assms(3) by auto
  with w(1) s(1) show ?thesis
    unfolding p0_def b0_def Let_def by blast
qed

theorem forced_commit_of_full_buffer_witness:
  "list_all (valid_call 4) [Edit [NUL, NUL, NUL, CHR ''z''] 4 ''> '' 97] \<and>
   length [NUL, NUL, NUL, CHR ''z''] = (4::nat) \<and> (3::nat) \<le> 4 \<and> (0::int) \<le> 98 \<and>
   char_of (98::int) \<noteq> CR \<and> char_of (98::int) \<noteq> LF \<and>
   run_api default_host [Edit [NUL, NUL, NUL, CHR ''z''] 4 ''> '' 97] l_state0 =
     Some (l_state0\<lparr>cols := 80, buf := [CHR ''a'', NUL, NUL, CHR ''z''], buflen := 3,
                    prompt := ''> '', plen := 2, pos := 1, history := [[]], out := ''> '',
                    mode := ln_read_regular\<rparr>) \<and>
   linenoiseEdit default_host [NUL, NUL, NUL, CHR ''z''] 4 ''> '' 98
     (l_state0\<lparr>cols := 80, buf := [CHR ''a'', NUL, NUL, CHR ''z''], buflen := 3,
               prompt := ''> '', plen := 2, pos := 1, history := [[]], out := ''> '',
               mode := ln_read_regular\<rparr>) =
     Some (2, l_state0\<lparr>cols := 80, buf := [CHR ''a'', CHR ''b'', NUL, CHR ''z''], buflen := 3,
                       prompt := ''> '', plen := 2, pos := 2, history := [[]], out := ''> '',
                       mode := ln_init\<rparr>) \<and>
   list_all (valid_call 3) [] \<and> length [CHR ''x'', CHR ''y'', CHR ''z''] = (3::nat) \<and>
   linenoiseEdit default_host [CHR ''x'', CHR ''y'', CHR ''z''] 3 ''> '' 98 l_state0 =
     Some (1, l_state0\<lparr>cols := 80, buf := [CHR ''b'', NUL, CHR ''z''], buflen := 2,
                       prompt := ''> '', plen := 2, pos := 1, history := [[]], out := ''> '',
                       mode := ln_init\<rparr>)"
  using forced_commit_of_full_buffer
    [of 4 "[Edit [NUL, NUL, NUL, CHR ''z''] 4 ''> '' 97]" "[NUL, NUL, NUL, CHR ''z'']" 98
        default_host "''> ''"]
    forced_commit_of_full_buffer
    [of 3 "[]" "[CHR ''x'', CHR ''y'', CHR ''z'']" 98 default_host "''> ''"]
  by (simp add: dumb_eval)

text \<open>
  Claim C9 as stated fails for the slot: with a four-byte array whose last byte is \<open>z\<close>,
  the second byte typed raises \<open>pos\<close> to \<open>buflen - 1 = 2\<close> and commits the line, and the
  terminator is at offset 2; the last slot still holds \<open>z\<close>.
\<close>

theorem last_slot_not_terminated_counterexample:
  "map_option (\<lambda>w. (mode w, pos w, buflen w))
     (run_api default_host [Edit [NUL, NUL, NUL, CHR ''z''] 4 ''> '' 97] l_state0) =
     Some (ln_read_regular, 1, 3) \<and>
   map_option (\<lambda>(r, w'). (r, pos w', buflen w', buf w', last (buf w') = NUL))
     (linenoiseEdit default_host [NUL, NUL, NUL, CHR ''z''] 4 ''> '' 98
        (the (run_api default_host [Edit [NUL, NUL, NUL, CHR ''z''] 4 ''> '' 97] l_state0))) =
     Some (2, 2, 3, [CHR ''a'', CHR ''b'', NUL, CHR ''z''], False)"
  by (simp add: run_eval)

subsection \<open>Result codes\<close>

text \<open>
  Claim C2, amended. The host edits into an array of \<open>n \<ge> 3\<close> bytes and asks for fewer
  than \<open>2^30\<close> history entries. Every step taken in a state reached from the initial one
  returns, and its result is: \<open>-1\<close> when no byte is
  available; the count of the bytes stored in the session, which is 0 for an empty line,
  when the byte is a carriage return or a line feed; \<open>-1\<close> when another byte is stored and
  room is left; and the count \<open>n - 2\<close> when the stored byte fills the array. It is never
  \<open>-2\<close>: there is no end-of-file and no interrupt key, the bytes \<^verbatim>\<open>0x03\<close> and \<^verbatim>\<open>0x04\<close> are
  stored like the others. A result that is not negative is the cursor, the array has its
  terminator there and the mode is \<open>ln_init\<close>.
\<close>

theorem step_result_codes:
  assumes "list_all (valid_call n) cs" and "length hbuf = n" and "3 \<le> n"
  shows "\<exists>w r w'. run_api h cs l_state0 = Some w \<and>
     linenoiseEdit h hbuf n p ch w = Some (r, w') \<and>
     r = (let p0 = (if mode w = ln_read_regular then pos w else 0)
          in if ch < 0 then - 1
             else if char_of ch = CR \<or> char_of ch = LF then int p0
             else if Suc p0 < n - 2 then - 1 else int (n - 2)) \<and>
     r \<noteq> - 2 \<and> - 1 \<le> r \<and> r \<le> int n - 2 \<and>
     (if 0 \<le> r then r = int (pos w') \<and> buf w' ! pos w' = NUL \<and> mode w' = ln_init
      else mode w' = ln_read_regular)"
proof -
  from run_api_dumb [OF dumb_inv_l_state0 assms(1) assms(3), of h]
  obtain w where w: "run_api h cs l_state0 = Some w" "dumb_inv n w" by blast
  define p0 where "p0 = (if mode w = ln_read_regular then pos w else 0)"
  define b0 where "b0 = (if mode w = ln_read_regular then buf w else hbuf[0 := NUL])"
  from dumb_step_exact [OF w(2) assms(2) assms(3), of h p ch]
  obtain r w' where s: "linenoiseEdit h hbuf n p ch w = Some (r, w')"
    "r = (if ch < 0 then - 1
          else if char_of ch = CR \<or> char_of ch = LF then int p0
          else if Suc p0 < n - 2 then - 1 else int (n - 2))"
    "buf w' = (if ch < 0 then b0
               else if char_of ch = CR \<or> char_of ch = LF then b0[p0 := NUL]
               else if Suc p0 < n - 2 then b0[p0 := char_of ch]
               else b0[p0 := char_of ch, n - 2 := NUL])"
    "pos w' = (if ch < 0 \<or> char_of ch = CR \<or> char_of ch = LF then p0 else Suc p0)"
    "mode w' = (if 0 \<le> r then ln_init else ln_read_regular)"
    "length b0 = n" "p0 < n - 2"
    unfolding p0_def b0_def by blast
  have full: "Suc p0 = n - 2" if "\<not> Suc p0 < n - 2"
    using that s(7) by simp
  have "r \<noteq> - 2 \<and> - 1 \<le> r \<and> r \<le> int n - 2 \<and>
     (if 0 \<le> r then r = int (pos w') \<and> buf w' ! pos w' = NUL \<and> mode w' = ln_init
      else mode w' = ln_read_regular)"
  proof (cases "ch < 0")
    case True
    with s(2,5) assms(3) show ?thesis by simp
  next
    case nonneg: False
    show ?thesis
    proof (cases "char_of ch = CR \<or> char_of ch = LF")
      case True
      with nonneg s(2-7) assms(3) show ?thesis by auto
    next
      case other: False
      show ?thesis
      proof (cases "Suc p0 < n - 2")
        case True
        with nonneg other s(2,5) assms(3) show ?thesis by simp
      next
        case False
        from full [OF False] have e: "Suc p0 = n - 2" .
        have r: "r = int (n - 2)" using nonneg other False s(2) by simp
        have "buf w' = b0[p0 := char_of ch, n - 2 := NUL]" using nonneg other False s(3) by simp
        moreover have "n - 2 < length (b0[p0 := char_of ch])" using s(6) assms(3) by simp
        ultimately have "buf w' ! (n - 2) = NUL" by (simp only: nth_list_update_eq)
        moreover have "pos w' = n - 2" using nonneg other s(4) e by simp
        moreover have "mode w' = ln_init" using r s(5) by simp
        ultimately show ?thesis using r assms(3) by simp
      qed
    qed
  qed
  with w(1) s(1) s(2) show ?thesis
    unfolding p0_def Let_def by blast
qed

theorem step_result_codes_witness:
  "list_all (valid_call 8)
     [Edit (replicate 8 NUL) 8 ''> '' 104, Edit (replicate 8 NUL) 8 ''> '' (- 1),
      Edit (replicate 8 NUL) 8 ''> '' 105] \<and>
   length (replicate 8 NUL) = (8::nat) \<and> (3::nat) \<le> 8 \<and>
   map_option (\<lambda>w. (mode w, pos w))
     (run_api default_host
        [Edit (replicate 8 NUL) 8 ''> '' 104, Edit (replicate 8 NUL) 8 ''> '' (- 1),
         Edit (replicate 8 NUL) 8 ''> '' 105] l_state0) = Some (ln_read_regular, 2) \<and>
   map_option (\<lambda>(r, w'). (r, pos w', mode w', take 3 (buf w')))
     (linenoiseEdit default_host (replicate 8 NUL) 8 ''> '' 13
        (the (run_api default_host
           [Edit (replicate 8 NUL) 8 ''> '' 104, Edit (replicate 8 NUL) 8 ''> '' (- 1),
            Edit (replicate 8 NUL) 8 ''> '' 105] l_state0))) =
     Some (2, 2, ln_init, [CHR ''h'', CHR ''i'', NUL])"
  using step_result_codes
    [of 8 "[Edit (replicate 8 NUL) 8 ''> '' 104, Edit (replicate 8 NUL) 8 ''> '' (- 1),
            Edit (replicate 8 NUL) 8 ''> '' 105]" "replicate 8 NUL" default_host "''> ''" 13]
  by (simp add: run_eval)

text \<open>
  Claim C2 as stated fails for the empty line: carriage return as the first byte of a
  session commits the line and the step returns 0, which is not positive.
\<close>

theorem empty_commit_returns_zero_counterexample:
  "map_option (\<lambda>(r, w'). (r, mode w', pos w', hd (buf w')))
     (linenoiseEdit default_host (replicate 8 NUL) 8 ''> '' 13 l_state0) =
     Some (0, ln_init, 0, NUL)"
  by (simp add: run_eval)

subsection \<open>End of file\<close>




subsection \<open>Restart after a finished line\<close>



section \<open>The invariants of the history\<close>

subsection \<open>The bound and the adjacent entries\<close>

definition hist_bounded :: "world \<Rightarrow> bool" where
  "hist_bounded w \<longleftrightarrow> length (history w) \<le> history_max_len w"

lemma linenoiseHistoryAdd_bounded:
  assumes "hist_bounded w"
  shows "hist_bounded (snd (linenoiseHistoryAdd line w))"
proof (cases "history_max_len w = 0 \<or> (length (history w) \<noteq> 0 \<and> last (history w) = line)")
  case True
  with assms show ?thesis by (auto simp add: linenoiseHistoryAdd_def)
next
  case False
  then have pos: "0 < history_max_len w" by simp
  show ?thesis
  proof (cases "length (history w) = history_max_len w")
    case True
    then have "length (tl (history w) @ [line]) = history_max_len w" using pos by simp
    with True False show ?thesis
      by (simp add: linenoiseHistoryAdd_def hist_bounded_def Let_def)
  next
    case ne: False
    with assms have "length (history w @ [line]) \<le> history_max_len w"
      by (simp add: hist_bounded_def)
    with ne False show ?thesis
      by (simp add: linenoiseHistoryAdd_def hist_bounded_def Let_def)
  qed
qed

lemma linenoiseHistoryAdd_distinct_adj:
  assumes "distinct_adj (history w)"
  shows "distinct_adj (history (snd (linenoiseHistoryAdd line w)))"
proof (cases "history_max_len w = 0 \<or> (length (history w) \<noteq> 0 \<and> last (history w) = line)")
  case True
  with assms show ?thesis by (auto simp add: linenoiseHistoryAdd_def)
next
  case False
  define hs where "hs = (if length (history w) = history_max_len w then tl (history w)
                         else history w)"
  have d: "distinct_adj hs"
    using assms by (cases "history w") (auto simp add: hs_def dest: distinct_adj_ConsD)
  have l: "hs = [] \<or> last hs \<noteq> line"
  proof (cases "hs = []")
    case True
    then show ?thesis by simp
  next
    case ne: False
    then have "history w \<noteq> []" by (auto simp add: hs_def split: if_splits)
    moreover have "last hs = last (history w)"
      using ne by (cases "history w") (auto simp add: hs_def split: if_splits)
    ultimately show ?thesis using False by simp
  qed
  have "history (snd (linenoiseHistoryAdd line w)) = hs @ [line]"
    using False by (auto simp add: linenoiseHistoryAdd_def hs_def Let_def)
  with d l show ?thesis by (auto simp add: distinct_adj_append_iff)
qed

lemma distinct_adj_drop: "distinct_adj xs \<Longrightarrow> distinct_adj (drop k xs)"
  by (metis append_take_drop_id distinct_adj_appendD2)

lemma linenoiseHistorySetMaxLen_distinct_adj:
  assumes "distinct_adj (history w)" and "linenoiseHistorySetMaxLen k w = Some (r, w')"
  shows "distinct_adj (history w')"
  using assms
  by (auto simp add: linenoiseHistorySetMaxLen_def Let_def distinct_adj_drop split: if_splits)

lemma linenoiseHistorySetMaxLen_bounded:
  assumes "hist_bounded w" and "linenoiseHistorySetMaxLen k w = Some (r, w')"
  shows "hist_bounded w'"
  using assms
  by (auto simp add: linenoiseHistorySetMaxLen_def hist_bounded_def Let_def split: if_splits)

lemma load_lines_distinct_adj:
  "distinct_adj (history w) \<Longrightarrow> distinct_adj (history (load_lines fp w))"
proof (induction fp w rule: load_lines.induct)
  case (1 fp w)
  show ?case
  proof (cases "fp = []")
    case True
    with "1.prems" show ?thesis by (simp add: load_lines.simps)
  next
    case False
    let ?w1 = "snd (linenoiseHistoryAdd (strip_eol (fst (fgets (LINENOISE_MAX_LINE - 1) fp))) w)"
    have "distinct_adj (history ?w1)"
      using "1.prems" by (rule linenoiseHistoryAdd_distinct_adj)
    from "1.IH" [OF False this] False show ?thesis
      by (subst load_lines.simps) simp
  qed
qed

lemma linenoiseHistoryLoad_distinct_adj:
  assumes "distinct_adj (history w)"
  shows "distinct_adj (history (snd (linenoiseHistoryLoad fl w)))"
  using assms by (cases fl) (simp_all add: linenoiseHistoryLoad_def load_lines_distinct_adj)

lemma load_lines_bounded:
  "hist_bounded w \<Longrightarrow> hist_bounded (load_lines fp w)"
proof (induction fp w rule: load_lines.induct)
  case (1 fp w)
  show ?case
  proof (cases "fp = []")
    case True
    with "1.prems" show ?thesis by (simp add: load_lines.simps)
  next
    case False
    let ?w1 = "snd (linenoiseHistoryAdd (strip_eol (fst (fgets (LINENOISE_MAX_LINE - 1) fp))) w)"
    have "hist_bounded ?w1" using "1.prems" by (rule linenoiseHistoryAdd_bounded)
    from "1.IH" [OF False this] False show ?thesis
      by (subst load_lines.simps) simp
  qed
qed

lemma linenoiseHistoryLoad_bounded:
  assumes "hist_bounded w"
  shows "hist_bounded (snd (linenoiseHistoryLoad fl w))"
  using assms by (cases fl) (simp_all add: linenoiseHistoryLoad_def load_lines_bounded)

lemma lnReadUserInput_dumb_history:
  assumes "\<not> smart_term_connected v" and "lnReadUserInput h ch v = Some (r, w')"
  shows "history w' = history v \<and> history_max_len w' = history_max_len v"
  using assms
  by (auto simp add: lnReadUserInput_def lnHandleCharacterDumb_def buf_store_def
      lnRestartState_def Let_def split: if_splits)

lemma lnInitState_history:
  assumes "lnInitState hbuf n p w = Some w1"
  shows "history w1 = history (snd (linenoiseHistoryAdd [] w)) \<and>
         history_max_len w1 = history_max_len w"
  using assms
  by (auto simp add: lnInitState_def linenoiseHistoryAdd_def buf_store_def linenoise_write_def
      Let_def split: if_splits)

lemma linenoiseEdit_dumb_history:
  assumes "dumb_modes w" and "linenoiseEdit h hbuf n p ch w = Some (r, w')"
  shows "history_max_len w' = history_max_len w \<and>
         (history w' = history w \<or> history w' = history (snd (linenoiseHistoryAdd [] w)))"
proof -
  from assms(1) have ns: "\<not> smart_term_connected w" by (simp add: dumb_modes_def)
  from assms(1) consider "mode w = ln_getColumns" | "mode w = ln_init" | "mode w = ln_read_regular"
    by (auto simp add: dumb_modes_def)
  then show ?thesis
  proof cases
    case 1
    let ?w0 = "w\<lparr>smart_term_connected := False, cols := 80, mode := ln_init\<rparr>"
    from 1 assms(2) obtain w1 where w1: "lnInitState hbuf n p ?w0 = Some w1"
      "lnReadUserInput h ch w1 = Some (r, w')"
      using linenoiseEdit_getColumns [of w h hbuf n p ch] by (auto simp add: bind_eq_Some_conv)
    from lnInitState_fields [OF w1(1)] have "\<not> smart_term_connected w1" by simp
    from lnReadUserInput_dumb_history [OF this w1(2)] lnInitState_history [OF w1(1)]
    show ?thesis by simp
  next
    case 2
    with assms(2) obtain w1 where w1: "lnInitState hbuf n p w = Some w1"
      "lnReadUserInput h ch w1 = Some (r, w')"
      by (auto simp add: linenoiseEdit_def bind_eq_Some_conv)
    from lnInitState_fields [OF w1(1)] ns have "\<not> smart_term_connected w1" by simp
    from lnReadUserInput_dumb_history [OF this w1(2)] lnInitState_history [OF w1(1)]
    show ?thesis by simp
  next
    case 3
    with assms(2) have "lnReadUserInput h ch w = Some (r, w')" by (simp add: linenoiseEdit_def)
    from lnReadUserInput_dumb_history [OF ns this] show ?thesis by simp
  qed
qed

definition hist_inv :: "world \<Rightarrow> bool" where
  "hist_inv w \<longleftrightarrow> length (history w) \<le> history_max_len w \<and> distinct_adj (history w)"

lemma hist_inv_iff: "hist_inv w \<longleftrightarrow> hist_bounded w \<and> distinct_adj (history w)"
  by (simp add: hist_inv_def hist_bounded_def)

lemma linenoiseHistoryAdd_inv: "hist_inv w \<Longrightarrow> hist_inv (snd (linenoiseHistoryAdd line w))"
  by (simp add: hist_inv_iff linenoiseHistoryAdd_bounded linenoiseHistoryAdd_distinct_adj)

lemma api_step_dumb_hist_inv:
  assumes "dumb_modes w" and "api_step h c w = Some w'" and "hist_inv w"
  shows "hist_inv w'"
proof (cases c)
  case (Edit hbuf m p ch)
  with assms(2) obtain r where "linenoiseEdit h hbuf m p ch w = Some (r, w')" by auto
  from linenoiseEdit_dumb_history [OF assms(1) this]
  have "history_max_len w' = history_max_len w"
    "history w' = history w \<or> history w' = history (snd (linenoiseHistoryAdd [] w))"
    by simp_all
  moreover have "history_max_len (snd (linenoiseHistoryAdd [] w)) = history_max_len w"
    by (simp add: linenoiseHistoryAdd_def Let_def)
  ultimately show ?thesis
    using assms(3) linenoiseHistoryAdd_inv [OF assms(3), of "[]"]
    by (auto simp add: hist_inv_def)
next
  case ClearScreen
  with assms show ?thesis
    by (auto simp add: linenoiseClearScreen_def linenoise_write_def hist_inv_def)
next
  case RefreshEditor
  with assms show ?thesis
    by (auto simp add: linenoiseRefreshEditor_def smartTerminalConnected_def dumb_modes_def)
next
  case (UpdatePrompt p)
  with assms show ?thesis
    by (auto simp add: linenoiseUpdatePrompt_def linenoiseRefreshEditor_def
        smartTerminalConnected_def dumb_modes_def hist_inv_def)
next
  case (SetMultiLine ml)
  with assms show ?thesis by (auto simp add: linenoiseSetMultiLine_def hist_inv_def)
next
  case (HistoryAdd line)
  with assms linenoiseHistoryAdd_inv [OF assms(3), of line] show ?thesis by auto
next
  case (HistorySetMaxLen k)
  with assms(2) obtain r where s: "linenoiseHistorySetMaxLen k w = Some (r, w')" by auto
  from assms(3) linenoiseHistorySetMaxLen_bounded [OF _ s]
    linenoiseHistorySetMaxLen_distinct_adj [OF _ s]
  show ?thesis by (simp add: hist_inv_iff)
next
  case (HistorySave ok)
  with assms show ?thesis by auto
next
  case (HistoryLoad fl)
  with assms linenoiseHistoryLoad_bounded [of w fl] linenoiseHistoryLoad_distinct_adj [of w fl]
  show ?thesis by (auto simp add: hist_inv_iff)
qed

lemma run_api_dumb_hist_inv:
  assumes "dumb_modes w" and "run_api h cs w = Some w'" and "hist_inv w"
  shows "hist_inv w'"
  using assms
proof (induction cs arbitrary: w)
  case Nil
  then show ?case by simp
next
  case (Cons c cs)
  from Cons.prems(2) obtain w1 where w1: "api_step h c w = Some w1" "run_api h cs w1 = Some w'"
    by (auto split: option.splits)
  from Cons.IH [OF api_step_dumb_modes [OF Cons.prems(1) w1(1)] w1(2)
      api_step_dumb_hist_inv [OF Cons.prems(1) w1(1) Cons.prems(3)]]
  show ?case .
qed

text \<open>
  Claim C6. In every state reached from the initial one by calls of the public interface
  (\<^verbatim>\<open>linenoiseHistoryAdd\<close>, \<^verbatim>\<open>linenoiseHistorySetMaxLen\<close>, \<^verbatim>\<open>linenoiseHistoryLoad\<close>, editing
  steps with the scratch entry they add, and the rest) the history holds at most
  \<open>history_max_len\<close> entries and no two adjacent entries are equal. The calls of a host
  that edits into an array of \<open>n \<ge> 3\<close> bytes and asks for fewer than \<open>2^30\<close> entries all
  return. Each of the three history functions keeps both properties from any state.
\<close>

theorem history_invariants:
  "(\<forall>w. run_api h cs l_state0 = Some w \<longrightarrow>
      length (history w) \<le> history_max_len w \<and> distinct_adj (history w)) \<and>
   (list_all (valid_call n) cs \<and> 3 \<le> n \<longrightarrow> (\<exists>w. run_api h cs l_state0 = Some w)) \<and>
   (length (history v) \<le> history_max_len v \<and> distinct_adj (history v) \<longrightarrow>
      hist_inv (snd (linenoiseHistoryAdd line v)) \<and>
      (4 * k < SIZE_MOD \<longrightarrow>
         (\<exists>r v'. linenoiseHistorySetMaxLen k v = Some (r, v') \<and> hist_inv v')) \<and>
      hist_inv (snd (linenoiseHistoryLoad fl v)))"
proof (intro conjI allI impI)
  fix w
  assume r: "run_api h cs l_state0 = Some w"
  have d: "dumb_modes l_state0" by (simp add: dumb_modes_def l_state0_def)
  have i: "hist_inv l_state0" by (simp add: hist_inv_def l_state0_def)
  from run_api_dumb_hist_inv [OF d r i]
  show "length (history w) \<le> history_max_len w" "distinct_adj (history w)"
    by (simp_all add: hist_inv_def)
next
  assume "list_all (valid_call n) cs \<and> 3 \<le> n"
  with run_api_dumb [OF dumb_inv_l_state0, of n cs h]
  show "\<exists>w. run_api h cs l_state0 = Some w" by blast
next
  assume "length (history v) \<le> history_max_len v \<and> distinct_adj (history v)"
  then have i: "hist_inv v" by (simp add: hist_inv_def)
  from linenoiseHistoryAdd_inv [OF i] show "hist_inv (snd (linenoiseHistoryAdd line v))" .
  from i show "hist_inv (snd (linenoiseHistoryLoad fl v))"
    by (simp add: hist_inv_iff linenoiseHistoryLoad_bounded linenoiseHistoryLoad_distinct_adj)
  assume "4 * k < SIZE_MOD"
  from linenoiseHistorySetMaxLen_defined [OF this, of v]
  obtain r v' where s: "linenoiseHistorySetMaxLen k v = Some (r, v')" by blast
  from i linenoiseHistorySetMaxLen_bounded [OF _ s] linenoiseHistorySetMaxLen_distinct_adj [OF _ s]
  have "hist_inv v'" by (simp add: hist_inv_iff)
  with s show "\<exists>r v'. linenoiseHistorySetMaxLen k v = Some (r, v') \<and> hist_inv v'" by blast
qed

lemmas api_eval = run_eval hist_inv_def linenoiseHistorySetMaxLen_def

theorem history_invariants_witness:
  "list_all (valid_call 8)
     [HistoryAdd ''a'', HistoryAdd ''a'', Edit (replicate 8 NUL) 8 ''> '' 98, HistoryAdd ''b'',
      HistorySetMaxLen 2] \<and> (3::nat) \<le> 8 \<and>
   run_api default_host
     [HistoryAdd ''a'', HistoryAdd ''a'', Edit (replicate 8 NUL) 8 ''> '' 98, HistoryAdd ''b'',
      HistorySetMaxLen 2] l_state0 =
     Some (l_state0\<lparr>cols := 80, buf := CHR ''b'' # replicate 7 NUL, buflen := 7,
                    prompt := ''> '', plen := 2, pos := 1, history := [[], ''b''],
                    history_max_len := 2, out := ''> '', mode := ln_read_regular\<rparr>) \<and>
   length [[], ''b''] \<le> (2::nat) \<and> distinct_adj [[], ''b''] \<and>
   map_option history (run_api default_host [HistoryAdd ''a'', HistoryAdd ''b''] l_state0) =
     Some [''a'', ''b''] \<and>
   history (snd (linenoiseHistoryAdd ''b''
     (the (run_api default_host [HistoryAdd ''a'', HistoryAdd ''b''] l_state0)))) =
     [''a'', ''b''] \<and>
   (4::nat) * 1 < SIZE_MOD \<and>
   map_option (\<lambda>(r, v'). (r, history v', history_max_len v'))
     (linenoiseHistorySetMaxLen 1
        (the (run_api default_host [HistoryAdd ''a'', HistoryAdd ''b''] l_state0))) =
     Some (1, [''b''], 1)"
  using history_invariants [of default_host
      "[HistoryAdd ''a'', HistoryAdd ''a'', Edit (replicate 8 NUL) 8 ''> '' 98, HistoryAdd ''b'',
        HistorySetMaxLen 2]" 8
      "the (run_api default_host [HistoryAdd ''a'', HistoryAdd ''b''] l_state0)" "''b''" 1 None]
  by (simp add: api_eval)

subsection \<open>Saving and loading\<close>

lemma fgets_line:
  "LF \<notin> set e \<Longrightarrow> length e < k \<Longrightarrow> fgets k (e @ LF # rest) = (e @ [LF], rest)"
proof (induction e arbitrary: k)
  case Nil
  then show ?case by (cases k) simp_all
next
  case (Cons c e)
  then obtain j where k: "k = Suc j" by (cases k) auto
  with Cons.prems Cons.IH [of j] show ?case by auto
qed

lemma fgets_full:
  "LF \<notin> set e \<Longrightarrow> fgets (length e) (e @ rest) = (e, rest)"
  by (induction e) auto

lemma takeWhile_all: "x \<notin> set xs \<Longrightarrow> takeWhile (\<lambda>c. c \<noteq> x) xs = xs"
  by (induction xs) auto

lemma strip_eol_line:
  assumes "NUL \<notin> set e" and "CR \<notin> set e" and "LF \<notin> set e"
  shows "strip_eol (e @ [LF]) = e"
proof -
  have "takeWhile (\<lambda>c. c \<noteq> NUL) (e @ [LF]) = e @ [LF]"
    using assms(1) by (intro takeWhile_all) simp
  moreover have "takeWhile (\<lambda>c. c \<noteq> LF) (e @ [LF]) = e"
    using assms(3) by (simp add: takeWhile_tail takeWhile_all)
  ultimately show ?thesis using assms(2) by (simp add: strip_eol_def)
qed

lemma strip_eol_clean:
  assumes "NUL \<notin> set e" and "CR \<notin> set e" and "LF \<notin> set e"
  shows "strip_eol e = e"
  using assms by (simp add: strip_eol_def takeWhile_all)

lemma linenoiseHistoryAdd_appends:
  assumes "length (history w) < history_max_len w"
    and "history w = [] \<or> last (history w) \<noteq> line"
  shows "linenoiseHistoryAdd line w = (1, w\<lparr>history := history w @ [line]\<rparr>)"
  using assms by (auto simp add: linenoiseHistoryAdd_def)

lemma load_lines_Nil: "load_lines [] w = w"
  by (simp add: load_lines.simps)

lemma load_lines_step:
  assumes "fp \<noteq> []" and "fgets (LINENOISE_MAX_LINE - 1) fp = (l, rest)"
  shows "load_lines fp w = load_lines rest (snd (linenoiseHistoryAdd (strip_eol l) w))"
  using assms by (subst load_lines.simps) simp

definition storable :: "string \<Rightarrow> bool" where
  "storable e = (NUL \<notin> set e \<and> CR \<notin> set e \<and> LF \<notin> set e \<and> length e < LINENOISE_MAX_LINE - 1)"

lemma load_lines_save_lines:
  assumes "list_all storable es" and "distinct_adj (history w @ es)"
    and "length (history w) + length es \<le> history_max_len w"
  shows "load_lines (save_lines es) w = w\<lparr>history := history w @ es\<rparr>"
  using assms
proof (induction es arbitrary: w)
  case Nil
  then show ?case by (simp add: load_lines.simps)
next
  case (Cons e es)
  let ?w1 = "w\<lparr>history := history w @ [e]\<rparr>"
  from Cons.prems(1) have "storable e" and es: "list_all storable es" by simp_all
  then have e: "NUL \<notin> set e" "CR \<notin> set e" "LF \<notin> set e"
    "length e < LINENOISE_MAX_LINE - 1"
    by (simp_all add: storable_def)
  have rd: "fgets (LINENOISE_MAX_LINE - 1) (e @ LF # save_lines es) = (e @ [LF], save_lines es)"
    using e(3,4) by (rule fgets_line)
  have "history w = [] \<or> last (history w) \<noteq> e"
    using Cons.prems(2) by (auto simp add: distinct_adj_append_iff)
  with Cons.prems(3) have ad: "linenoiseHistoryAdd e w = (1, ?w1)"
    by (intro linenoiseHistoryAdd_appends) simp_all
  have "load_lines (save_lines (e # es)) w = load_lines (save_lines es) ?w1"
    using load_lines_step [OF _ rd, of w] by (simp add: strip_eol_line [OF e(1,2,3)] ad)
  also have "\<dots> = ?w1\<lparr>history := history ?w1 @ es\<rparr>"
    using es Cons.prems(2,3) by (intro Cons.IH) simp_all
  finally show ?case by simp
qed

text \<open>
  Claim C7, amended. A store whose entries hold no carriage return and no line feed, are
  at most 4094 bytes long and differ from their neighbours is saved and then loaded, into
  an empty store with room for as many entries, as the same sequence of entries.
\<close>

theorem history_save_load_round_trip:
  assumes "list_all storable (history w)" and "distinct_adj (history w)"
    and "history w0 = []" and "length (history w) \<le> history_max_len w0"
  shows "fst (linenoiseHistorySave True w) = 0 \<and>
         linenoiseHistoryLoad (snd (linenoiseHistorySave True w)) w0 =
           (0, w0\<lparr>history := history w\<rparr>)"
  using assms load_lines_save_lines [of "history w" w0]
  by (simp add: linenoiseHistorySave_def linenoiseHistoryLoad_def)

theorem history_save_load_round_trip_witness:
  "list_all storable [''ls'', ''cd /''] \<and> distinct_adj [''ls'', ''cd /''] \<and>
   history l_state0 = [] \<and> length [''ls'', ''cd /''] \<le> history_max_len l_state0 \<and>
   snd (linenoiseHistorySave True (l_state0\<lparr>history := [''ls'', ''cd /'']\<rparr>)) =
     Some (''ls'' @ [LF] @ ''cd /'' @ [LF]) \<and>
   linenoiseHistoryLoad (Some (''ls'' @ [LF] @ ''cd /'' @ [LF])) l_state0 =
     (0, l_state0\<lparr>history := [''ls'', ''cd /'']\<rparr>)"
  using history_save_load_round_trip [of "l_state0\<lparr>history := [''ls'', ''cd /'']\<rparr>" l_state0]
  by (simp add: storable_def LINENOISE_MAX_LINE_def l_state0_def linenoiseHistorySave_def)

text \<open>
  Claim C7 as stated fails for an entry that holds a carriage return, which the loader
  takes for the end of the line, and for an entry of 4095 bytes, which fills the
  loader's buffer so that its line feed is read as an empty line of its own.
\<close>

theorem history_round_trip_counterexample:
  "history (snd (linenoiseHistoryLoad
      (snd (linenoiseHistorySave True (l_state0\<lparr>history := [[CHR ''a'', CR, CHR ''b'']]\<rparr>)))
      l_state0)) = [''a''] \<and>
   length (replicate 4095 (CHR ''a'')) < 4096 \<and> LF \<notin> set (replicate 4095 (CHR ''a'')) \<and>
   history (snd (linenoiseHistoryLoad
      (snd (linenoiseHistorySave True (l_state0\<lparr>history := [replicate 4095 (CHR ''a'')]\<rparr>)))
      l_state0)) = [replicate 4095 (CHR ''a''), []]"
proof -
  let ?e = "replicate 4095 (CHR ''a'')"
  have "fgets (LINENOISE_MAX_LINE - 1) [CHR ''a'', CR, CHR ''b'', LF] =
      ([CHR ''a'', CR, CHR ''b'', LF], [])"
    by (simp add: LINENOISE_MAX_LINE_def numeral_eq_Suc)
  from load_lines_step [OF _ this, of l_state0]
  have a: "load_lines [CHR ''a'', CR, CHR ''b'', LF] l_state0 = l_state0\<lparr>history := [''a'']\<rparr>"
    by (simp add: load_lines_Nil strip_eol_def linenoiseHistoryAdd_def l_state0_def)
  have rd: "fgets (LINENOISE_MAX_LINE - 1) (?e @ [LF]) = (?e, [LF])"
    using fgets_full [of ?e "[LF]"] by (simp add: LINENOISE_MAX_LINE_def)
  have rd2: "fgets (LINENOISE_MAX_LINE - 1) [LF] = ([LF], [])"
    by (simp add: LINENOISE_MAX_LINE_def numeral_eq_Suc)
  have st: "strip_eol ?e = ?e" by (intro strip_eol_clean) simp_all
  have st2: "strip_eol [LF] = []" by (simp add: strip_eol_def)
  have "load_lines (?e @ [LF]) l_state0 =
      load_lines [LF] (snd (linenoiseHistoryAdd ?e l_state0))"
    using load_lines_step [OF _ rd, of l_state0] by (simp add: st)
  also have "\<dots> = snd (linenoiseHistoryAdd [] (snd (linenoiseHistoryAdd ?e l_state0)))"
    using load_lines_step [OF _ rd2, of "snd (linenoiseHistoryAdd ?e l_state0)"]
    by (simp add: st2 load_lines_Nil)
  also have "\<dots> = l_state0\<lparr>history := [?e, []]\<rparr>"
    by (simp add: linenoiseHistoryAdd_def l_state0_def)
  finally have b: "load_lines (?e @ [LF]) l_state0 = l_state0\<lparr>history := [?e, []]\<rparr>" .
  show ?thesis
    by (simp add: linenoiseHistorySave_def linenoiseHistoryLoad_def a b)
qed

section \<open>The highlighted argument of a hint\<close>












section \<open>The rows of the multi-line renderer\<close>










end
